theory Spec2Isabelle
  imports Complex_Main "HOL-Library.List_Lexorder" "HOL-Library.Char_ord"
begin

section \<open>Data model of \<^verbatim>\<open>backend/src/api/mempool-blocks.ts\<close>\<close>

text \<open>
  JavaScript numbers are modelled exactly: counts of bytes, weight units and satoshis
  (\<^verbatim>\<open>size\<close>, \<^verbatim>\<open>weight\<close>, \<^verbatim>\<open>fee\<close>) are natural numbers, everything that is divided
  (\<^verbatim>\<open>vsize\<close>, the fee rates) is a rational. A field that can be \<^verbatim>\<open>undefined\<close> or
  \<^verbatim>\<open>null\<close> is an option. Rounding of doubles and \<^verbatim>\<open>NaN\<close> are outside the model.
  Transaction ids are hexadecimal strings; their order is the lexicographic order of
  the characters, which is what \<^verbatim>\<open><\<close> on JavaScript strings computes for them.
\<close>

record ancestor =
  a_txid :: string
  a_fee :: nat
  a_weight :: nat

record position =
  block :: nat
  p_vsize :: rat

text \<open>\<^verbatim>\<open>TransactionExtended\<close>: the fields this file reads or writes.\<close>

record tx =
  txid :: string
  fee :: nat
  weight :: nat
  vsize :: rat
  tsize :: nat
  feePerVsize :: rat
  effectiveFeePerVsize :: "rat option"
  vin :: "string list"
  ancestors :: "ancestor list"
  descendants :: "ancestor list"
  bestDescendant :: "ancestor option"
  cpfpChecked :: "bool option"
  position :: "position option"

text \<open>\<^verbatim>\<open>TransactionStripped\<close>, the client-facing form: the delta computation reads
  \<^verbatim>\<open>txid\<close> and \<^verbatim>\<open>rate\<close> only.\<close>

record stripped =
  s_txid :: string
  s_fee :: nat
  s_vsize :: rat
  rate :: "rat option"

text \<open>\<^verbatim>\<open>MempoolBlock\<close> and its extension \<^verbatim>\<open>MempoolBlockWithTransactions\<close>.\<close>

record mempoolBlock =
  blockSize :: nat
  blockVSize :: rat
  nTx :: nat
  totalFees :: nat
  medianFee :: rat
  feeRange :: "rat list"

record mempoolBlockWithTransactions = mempoolBlock +
  transactionIds :: "string list"
  transactions :: "stripped list"

record mempoolBlockDelta =
  added :: "stripped list"
  removed :: "string list"
  changed :: "(string \<times> rat option) list"

text \<open>The two entries of \<^verbatim>\<open>config.MEMPOOL\<close> that the file reads. The configuration
  module is not part of the sources; its values are parameters.\<close>

record config =
  BLOCK_WEIGHT_UNITS :: nat
  MEMPOOL_BLOCKS_AMOUNT :: int

text \<open>
  The mempool is a JavaScript object \<^verbatim>\<open>{ [txid: string]: TransactionExtended }\<close> whose
  values are mutated in place, and \<^verbatim>\<open>memPoolArray\<close> holds references to the same
  objects. The model keeps an explicit store: a transaction object is addressed by the
  key under which the mempool holds it, the mempool is the list of its keys (in
  enumeration order) together with the store, and an array of transactions is a list
  of keys. Two keys never address the same object.
\<close>

type_synonym heap = "string \<Rightarrow> tx"

type_synonym mempool = "string list \<times> heap"

text \<open>The helpers of the module \<^verbatim>\<open>Common\<close> that the file calls. That module is not part
  of the sources, so the helpers are parameters. \<^verbatim>\<open>stripTransaction\<close> and
  \<^verbatim>\<open>calcEffectiveFeeStatistics\<close> read their argument;
  \<^verbatim>\<open>setRelativesAndGetCpfpInfo(tx, memPool)\<close> writes to the objects of the mempool, so
  it takes the key of \<^verbatim>\<open>tx\<close>, the keys of the mempool and the store, and returns the
  store.\<close>

record common =
  stripTransaction :: "tx \<Rightarrow> stripped"
  calcEffectiveFeeStatistics :: "tx list \<Rightarrow> rat \<times> rat list"
  setRelativesAndGetCpfpInfo :: "string \<Rightarrow> string list \<Rightarrow> heap \<Rightarrow> heap"

section \<open>\<^verbatim>\<open>dataToMempoolBlocks\<close>\<close>

text \<open>The \<^verbatim>\<open>forEach\<close> of \<^verbatim>\<open>dataToMempoolBlocks\<close>: the state is
  \<^verbatim>\<open>(totalSize, totalWeight, fitTransactions)\<close>. The weight of the transaction is
  added to \<^verbatim>\<open>totalWeight\<close> first and then once more in the test.\<close>

fun fitStep :: "config \<Rightarrow> nat \<times> nat \<times> tx list \<Rightarrow> tx \<Rightarrow> nat \<times> nat \<times> tx list" where
  "fitStep cfg (totalSize, totalWeight, fitTransactions) t =
     (let totalSize' = totalSize + tsize t;
          totalWeight' = totalWeight + weight t
      in (totalSize', totalWeight',
          if rat_of_nat (totalWeight' + weight t) \<le> rat_of_nat (BLOCK_WEIGHT_UNITS cfg) * 1.2
          then fitTransactions @ [t] else fitTransactions))"

definition dataToMempoolBlocks ::
  "config \<Rightarrow> common \<Rightarrow> tx list \<Rightarrow> mempoolBlockWithTransactions" where
  "dataToMempoolBlocks cfg cmn txs =
     (case foldl (fitStep cfg) (0, 0, []) txs of
        (totalSize, totalWeight, fitTransactions) \<Rightarrow>
          (let feeStats = calcEffectiveFeeStatistics cmn txs
           in \<lparr> blockSize = totalSize,
                blockVSize = rat_of_nat totalWeight / 4,
                nTx = length txs,
                totalFees = foldl (\<lambda>acc cur. acc + fee cur) 0 txs,
                medianFee = fst feeStats,
                feeRange = snd feeStats,
                transactionIds = map txid txs,
                transactions = map (stripTransaction cmn) fitTransactions \<rparr>))"

text \<open>The local \<^verbatim>\<open>fitTransactions\<close> when the loop has ended.\<close>

definition fitTransactions :: "config \<Rightarrow> tx list \<Rightarrow> tx list" where
  "fitTransactions cfg txs = snd (snd (foldl (fitStep cfg) (0, 0, []) txs))"

section \<open>\<^verbatim>\<open>calculateMempoolBlocks\<close>\<close>

text \<open>
  The \<^verbatim>\<open>forEach\<close> of \<^verbatim>\<open>calculateMempoolBlocks\<close>. The state is
  \<^verbatim>\<open>(mempoolBlocks, blockWeight, blockVsize, transactions)\<close> and one more component,
  \<open>assembled\<close>: the lists of transactions handed to \<^verbatim>\<open>dataToMempoolBlocks\<close> so far,
  one per block pushed. The source writes \<^verbatim>\<open>tx.position\<close> into the object; the model
  puts the transaction with its new position into \<^verbatim>\<open>transactions\<close>, so \<open>assembled\<close>
  shows every transaction as the call leaves it. The elements of the input are taken
  to be different objects, as they are at the only call site.
\<close>

type_synonym packer =
  "mempoolBlockWithTransactions list \<times> nat \<times> rat \<times> tx list \<times> tx list list"

fun packStep :: "config \<Rightarrow> common \<Rightarrow> packer \<Rightarrow> tx \<Rightarrow> packer" where
  "packStep cfg cmn (blocks, blockWeight, blockVsize, txs, assembled) t =
     (if blockWeight + weight t \<le> BLOCK_WEIGHT_UNITS cfg
         \<or> int (length blocks) = MEMPOOL_BLOCKS_AMOUNT cfg - 1
      then (blocks, blockWeight + weight t, blockVsize + vsize t,
            txs @ [t\<lparr>position := Some \<lparr>block = length blocks,
                                        p_vsize = blockVsize + vsize t / 2\<rparr>\<rparr>],
            assembled)
      else (let blocks' = blocks @ [dataToMempoolBlocks cfg cmn txs];
                blockVsize' = 0
            in (blocks', weight t, blockVsize' + vsize t,
                [t\<lparr>position := Some \<lparr>block = length blocks',
                                     p_vsize = blockVsize' + vsize t / 2\<rparr>\<rparr>],
                assembled @ [txs])))"

text \<open>The result is the sequence of blocks, paired with the transactions behind each
  block.\<close>

definition calculateMempoolBlocks ::
  "config \<Rightarrow> common \<Rightarrow> tx list \<Rightarrow> mempoolBlockWithTransactions list \<times> tx list list" where
  "calculateMempoolBlocks cfg cmn transactionsSorted =
     (case foldl (packStep cfg cmn) ([], 0, 0, [], []) transactionsSorted of
        (blocks, blockWeight, blockVsize, txs, assembled) \<Rightarrow>
          if txs \<noteq> [] then (blocks @ [dataToMempoolBlocks cfg cmn txs], assembled @ [txs])
          else (blocks, assembled))"

section \<open>\<^verbatim>\<open>calculateMempoolDeltas\<close>\<close>

text \<open>\<^verbatim>\<open>xs[i]\<close> is \<^verbatim>\<open>undefined\<close> past the end of the array.\<close>

definition nthOpt :: "'a list \<Rightarrow> nat \<Rightarrow> 'a option" where
  "nthOpt xs i = (if i < length xs then Some (xs ! i) else None)"

text \<open>The temporary objects \<^verbatim>\<open>prevIds\<close> and \<^verbatim>\<open>newIds\<close> are finite maps: a txid is a
  hexadecimal string and never names a property that \<^verbatim>\<open>{}\<close> inherits.\<close>

definition mkPrevIds :: "stripped list \<Rightarrow> string \<rightharpoonup> stripped" where
  "mkPrevIds ts = foldl (\<lambda>prevIds t. prevIds(s_txid t \<mapsto> t)) Map.empty ts"

definition mkNewIds :: "stripped list \<Rightarrow> string \<rightharpoonup> bool" where
  "mkNewIds ts = foldl (\<lambda>newIds t. newIds(s_txid t \<mapsto> True)) Map.empty ts"

fun removedStep :: "(string \<rightharpoonup> bool) \<Rightarrow> string list \<Rightarrow> stripped \<Rightarrow> string list" where
  "removedStep newIds rem t =
     (if newIds (s_txid t) \<noteq> Some True then rem @ [s_txid t] else rem)"

fun addedStep ::
  "(string \<rightharpoonup> stripped) \<Rightarrow> stripped list \<times> (string \<times> rat option) list \<Rightarrow> stripped
     \<Rightarrow> stripped list \<times> (string \<times> rat option) list" where
  "addedStep prevIds (add, chg) t =
     (case prevIds (s_txid t) of
        None \<Rightarrow> (add @ [t], chg)
      | Some p \<Rightarrow> if rate t \<noteq> rate p then (add, chg @ [(s_txid t, rate t)]) else (add, chg))"

text \<open>The body of the \<^verbatim>\<open>for\<close> loop at index \<open>i\<close>.\<close>

definition deltaAt ::
  "mempoolBlockWithTransactions list \<Rightarrow> mempoolBlockWithTransactions list \<Rightarrow> nat
     \<Rightarrow> mempoolBlockDelta" where
  "deltaAt prevBlocks newBlocks i =
     (case (nthOpt newBlocks i, nthOpt prevBlocks i) of
        (Some n, None) \<Rightarrow> \<lparr>added = transactions n, removed = [], changed = []\<rparr>
      | (None, Some p) \<Rightarrow> \<lparr>added = [], removed = map s_txid (transactions p), changed = []\<rparr>
      | (Some n, Some p) \<Rightarrow>
          (let prevIds = mkPrevIds (transactions p);
               newIds = mkNewIds (transactions n);
               rem = foldl (removedStep newIds) [] (transactions p);
               ac = foldl (addedStep prevIds) ([], []) (transactions n)
           in \<lparr>added = fst ac, removed = rem, changed = snd ac\<rparr>)
      | (None, None) \<Rightarrow> \<lparr>added = [], removed = [], changed = []\<rparr>)"

definition calculateMempoolDeltas ::
  "mempoolBlockWithTransactions list \<Rightarrow> mempoolBlockWithTransactions list
     \<Rightarrow> mempoolBlockDelta list" where
  "calculateMempoolDeltas prevBlocks newBlocks =
     map (deltaAt prevBlocks newBlocks) [0..<max (length newBlocks) (length prevBlocks)]"

section \<open>The published snapshot and its accessors\<close>

record mempoolBlocksState =
  mempoolBlocks :: "mempoolBlockWithTransactions list"
  mempoolBlockDeltas :: "mempoolBlockDelta list"

definition getMempoolBlocks :: "mempoolBlocksState \<Rightarrow> mempoolBlock list" where
  "getMempoolBlocks st =
     map (\<lambda>b. \<lparr>blockSize = blockSize b, blockVSize = blockVSize b, nTx = nTx b,
                totalFees = totalFees b, medianFee = medianFee b, feeRange = feeRange b\<rparr>)
       (mempoolBlocks st)"

definition getMempoolBlocksWithTransactions ::
  "mempoolBlocksState \<Rightarrow> mempoolBlockWithTransactions list" where
  "getMempoolBlocksWithTransactions st = mempoolBlocks st"

definition getMempoolBlockDeltas :: "mempoolBlocksState \<Rightarrow> mempoolBlockDelta list" where
  "getMempoolBlockDeltas st = mempoolBlockDeltas st"

text \<open>The last statements of \<^verbatim>\<open>updateMempoolBlocks\<close> and of \<^verbatim>\<open>processBlockTemplates\<close>.\<close>

definition saveBlocks ::
  "bool \<Rightarrow> mempoolBlockWithTransactions list \<Rightarrow> mempoolBlocksState \<Rightarrow> mempoolBlocksState" where
  "saveBlocks saveResults blocks st =
     (if saveResults
      then (let deltas = calculateMempoolDeltas (mempoolBlocks st) blocks
            in st\<lparr>mempoolBlocks := blocks, mempoolBlockDeltas := deltas\<rparr>)
      else st)"

section \<open>\<^verbatim>\<open>updateMempoolBlocks\<close>\<close>

text \<open>The first \<^verbatim>\<open>forEach\<close>: \<^verbatim>\<open>!tx.effectiveFeePerVsize\<close> holds when the field is absent
  or \<open>0\<close>.\<close>

definition clearTx :: "tx \<Rightarrow> tx" where
  "clearTx t =
     (let t' = t\<lparr>bestDescendant := None, ancestors := [], cpfpChecked := Some False\<rparr>
      in if effectiveFeePerVsize t' = None \<or> effectiveFeePerVsize t' = Some 0
         then t'\<lparr>effectiveFeePerVsize := Some (feePerVsize t')\<rparr>
         else t')"

definition clearAll :: "string list \<Rightarrow> heap \<Rightarrow> heap" where
  "clearAll memPoolArray h = foldl (\<lambda>h' k. h'(k := clearTx (h' k))) h memPoolArray"

text \<open>The two comparators. In the second one a difference with an absent operand is
  \<^verbatim>\<open>NaN\<close>, which \<^verbatim>\<open>Array.prototype.sort\<close> reads as \<open>0\<close>.\<close>

definition byFeePerVsize :: "tx \<Rightarrow> tx \<Rightarrow> rat" where
  "byFeePerVsize a b =
     (if feePerVsize a = feePerVsize b
      then (if txid a < txid b then - 1 else 1)
      else feePerVsize b - feePerVsize a)"

definition byEffectiveFeePerVsize :: "tx \<Rightarrow> tx \<Rightarrow> rat" where
  "byEffectiveFeePerVsize a b =
     (if effectiveFeePerVsize a = effectiveFeePerVsize b
      then (if txid a < txid b then - 1 else 1)
      else (case (effectiveFeePerVsize b, effectiveFeePerVsize a) of
              (Some y, Some x) \<Rightarrow> y - x
            | _ \<Rightarrow> 0))"

text \<open>\<^verbatim>\<open>Array.prototype.sort\<close> is stable; it is modelled by insertion sort, which puts
  \<open>x\<close> in front of the first \<open>y\<close> with \<^verbatim>\<open>cmp(x, y) <= 0\<close>. Where the txids of the array
  are pairwise different each comparator is a strict total order, and every sorting
  algorithm returns the same array.\<close>

fun insertBy :: "('a \<Rightarrow> 'a \<Rightarrow> rat) \<Rightarrow> 'a \<Rightarrow> 'a list \<Rightarrow> 'a list" where
  "insertBy cmp x [] = [x]"
| "insertBy cmp x (y # ys) = (if cmp x y \<le> 0 then x # y # ys else y # insertBy cmp x ys)"

definition sortBy :: "('a \<Rightarrow> 'a \<Rightarrow> rat) \<Rightarrow> 'a list \<Rightarrow> 'a list" where
  "sortBy cmp xs = foldr (insertBy cmp) xs []"

text \<open>The third \<^verbatim>\<open>forEach\<close>, with the running weight \<^verbatim>\<open>sizes\<close>. The state is
  \<^verbatim>\<open>sizes\<close>, the store, and the list of the transactions handed to the resolver so
  far.\<close>

fun resolveStep ::
  "common \<Rightarrow> string list \<Rightarrow> nat \<times> heap \<times> string list \<Rightarrow> string \<Rightarrow> nat \<times> heap \<times> string list" where
  "resolveStep cmn keys (sizes, h, calls) k =
     (let sizes' = sizes + weight (h k)
      in if sizes' > 4000000 * 8 then (sizes', h, calls)
         else (sizes', setRelativesAndGetCpfpInfo cmn k keys h, calls @ [k]))"

text \<open>\<^verbatim>\<open>memPoolArray\<close> after "First sort".\<close>

definition firstSort :: "mempool \<Rightarrow> string list" where
  "firstSort memPool =
     (case memPool of (keys, h) \<Rightarrow>
        (let h1 = clearAll keys h
         in sortBy (\<lambda>a b. byFeePerVsize (h1 a) (h1 b)) keys))"

text \<open>The state after the loop over the sorted array.\<close>

definition resolveAll :: "common \<Rightarrow> mempool \<Rightarrow> nat \<times> heap \<times> string list" where
  "resolveAll cmn memPool =
     (case memPool of (keys, h) \<Rightarrow>
        foldl (resolveStep cmn keys) (0, clearAll keys h, []) (firstSort memPool))"

definition resolverCalls :: "common \<Rightarrow> mempool \<Rightarrow> string list" where
  "resolverCalls cmn memPool = snd (snd (resolveAll cmn memPool))"

text \<open>\<^verbatim>\<open>memPoolArray\<close> after "Final sort, by effective fee".\<close>

definition finalSort :: "common \<Rightarrow> mempool \<Rightarrow> string list" where
  "finalSort cmn memPool =
     (case resolveAll cmn memPool of (sizes, h2, calls) \<Rightarrow>
        sortBy (\<lambda>a b. byEffectiveFeePerVsize (h2 a) (h2 b)) (firstSort memPool))"

text \<open>\<^verbatim>\<open>calculateMempoolBlocks\<close> writes \<^verbatim>\<open>position\<close> into the objects of the array.\<close>

definition storePositions :: "string list \<Rightarrow> tx list \<Rightarrow> heap \<Rightarrow> heap" where
  "storePositions memPoolArray txs h =
     foldl (\<lambda>h' (k, t). h'(k := (h' k)\<lparr>position := position t\<rparr>)) h (zip memPoolArray txs)"

text \<open>The call returns the blocks, the snapshot it leaves and the mempool it leaves.\<close>

definition updateMempoolBlocks ::
  "config \<Rightarrow> common \<Rightarrow> mempoolBlocksState \<Rightarrow> mempool \<Rightarrow> bool
     \<Rightarrow> mempoolBlockWithTransactions list \<times> mempoolBlocksState \<times> mempool" where
  "updateMempoolBlocks cfg cmn st memPool saveResults =
     (case resolveAll cmn memPool of (sizes, h2, calls) \<Rightarrow>
        (let memPoolArray = finalSort cmn memPool
         in case calculateMempoolBlocks cfg cmn (map h2 memPoolArray) of
              (blocks, assembled) \<Rightarrow>
                (blocks, saveBlocks saveResults blocks st,
                 (fst memPool, storePositions memPoolArray (concat assembled) h2))))"

section \<open>\<^verbatim>\<open>processBlockTemplates\<close>\<close>

text \<open>A transaction of the worker's reply: the fields that \<^verbatim>\<open>processBlockTemplates\<close>
  reads. An empty \<^verbatim>\<open>txid\<close> is falsy. \<^verbatim>\<open>tx.txid in mempool\<close> and the truth of
  \<^verbatim>\<open>mempool[txid]\<close> are membership among the keys of the mempool, and \<^verbatim>\<open>clusters\<close> is
  a finite map (no txid names an inherited property).\<close>

record threadTransaction =
  t_txid :: string
  t_effectiveFeePerVsize :: "rat option"
  t_cpfpRoot :: "string option"
  t_cpfpChecked :: "bool option"

text \<open>The \<^verbatim>\<open>cluster.forEach\<close>: the state is \<^verbatim>\<open>(matched, ancestors, descendants)\<close>.\<close>

fun clusterStep ::
  "mempool \<Rightarrow> string \<Rightarrow> bool \<times> ancestor list \<times> ancestor list \<Rightarrow> string
     \<Rightarrow> bool \<times> ancestor list \<times> ancestor list" where
  "clusterStep (keys, h) self (matched, anc, desc) c =
     (if c = [] \<or> c \<notin> set keys then (matched, anc, desc)
      else if c = self then (True, anc, desc)
      else (let relative = \<lparr>a_txid = c, a_fee = fee (h c), a_weight = weight (h c)\<rparr>
            in if matched then (matched, anc, desc @ [relative])
               else (matched, anc @ [relative], desc)))"

text \<open>The inner \<^verbatim>\<open>block.forEach\<close>: the state is \<^verbatim>\<open>runningVsize\<close> and the store.\<close>

fun enrichStep ::
  "string list \<Rightarrow> (string \<rightharpoonup> string list) \<Rightarrow> nat \<Rightarrow> rat \<times> heap \<Rightarrow> threadTransaction
     \<Rightarrow> rat \<times> heap" where
  "enrichStep keys clusters blockIndex (runningVsize, h) t =
     (if t_txid t \<noteq> [] \<and> t_txid t \<in> set keys
      then (let k = t_txid t;
                h1 = h(k := (h k)\<lparr>position :=
                       Some \<lparr>block = blockIndex, p_vsize = runningVsize + vsize (h k) / 2\<rparr>\<rparr>);
                runningVsize' = runningVsize + vsize (h1 k);
                h2 = (case t_effectiveFeePerVsize t of
                        Some e \<Rightarrow> h1(k := (h1 k)\<lparr>effectiveFeePerVsize := Some e\<rparr>)
                      | None \<Rightarrow> h1);
                h3 = (case t_cpfpRoot t of
                        None \<Rightarrow> h2
                      | Some r \<Rightarrow>
                          (if r = [] then h2
                           else case clusters r of
                                  None \<Rightarrow> h2
                                | Some cluster \<Rightarrow>
                                    (case foldl (clusterStep (keys, h2) k) (False, [], []) cluster of
                                       (matched, anc, desc) \<Rightarrow>
                                         h2(k := (h2 k)\<lparr>ancestors := anc, descendants := desc,
                                                         bestDescendant := None\<rparr>))))
            in (runningVsize', h3(k := (h3 k)\<lparr>cpfpChecked := t_cpfpChecked t\<rparr>)))
      else (runningVsize, h))"

text \<open>The outer \<^verbatim>\<open>blocks.forEach\<close>, over the blocks paired with their indices.\<close>

definition enrichAll ::
  "string list \<Rightarrow> (string \<rightharpoonup> string list) \<Rightarrow> threadTransaction list list \<Rightarrow> heap \<Rightarrow> heap" where
  "enrichAll keys clusters blocks h =
     foldl (\<lambda>h' (blockIndex, blk). snd (foldl (enrichStep keys clusters blockIndex) (0, h') blk))
       h (zip [0..<length blocks] blocks)"

definition processBlockTemplates ::
  "config \<Rightarrow> common \<Rightarrow> mempoolBlocksState \<Rightarrow> mempool \<Rightarrow> threadTransaction list list
     \<Rightarrow> (string \<rightharpoonup> string list) \<Rightarrow> bool
     \<Rightarrow> mempoolBlockWithTransactions list \<times> mempoolBlocksState \<times> mempool" where
  "processBlockTemplates cfg cmn st memPool blocks clusters saveResults =
     (case memPool of (keys, h) \<Rightarrow>
        (let h' = enrichAll keys clusters blocks h;
             newBlocks = map (\<lambda>blk. dataToMempoolBlocks cfg cmn
                                 (map (\<lambda>t. h' (t_txid t)) (filter (\<lambda>t. t_txid t \<in> set keys) blk)))
                           blocks
         in (newBlocks, saveBlocks saveResults newBlocks st, (keys, h'))))"

section \<open>Concrete inputs\<close>

text \<open>The default configuration.\<close>

definition defaultConfig :: config where
  "defaultConfig = \<lparr>BLOCK_WEIGHT_UNITS = 4000000, MEMPOOL_BLOCKS_AMOUNT = 8\<rparr>"

text \<open>A transaction as it enters the mempool, from its id, weight and fee.\<close>

definition mkTx :: "string \<Rightarrow> nat \<Rightarrow> nat \<Rightarrow> tx" where
  "mkTx i w f =
     \<lparr>txid = i, fee = f, weight = w, vsize = rat_of_nat w / 4, tsize = w div 4,
      feePerVsize = rat_of_nat f / (rat_of_nat w / 4), effectiveFeePerVsize = None,
      vin = [], ancestors = [], descendants = [], bestDescendant = None,
      cpfpChecked = None, position = None\<rparr>"

text \<open>Helpers to run the functions on: the stripped form keeps the id, the fee, the
  vsize and the effective rate; no fee statistics; and the resolver as it acts on a
  transaction without relatives in the mempool, whose effective rate is its own.\<close>

definition stripPlain :: "tx \<Rightarrow> stripped" where
  "stripPlain t =
     \<lparr>s_txid = txid t, s_fee = fee t, s_vsize = rat_of_nat (weight t) / 4,
      rate = effectiveFeePerVsize t\<rparr>"

definition resolveAlone :: "string \<Rightarrow> string list \<Rightarrow> heap \<Rightarrow> heap" where
  "resolveAlone k keys h =
     h(k := (h k)\<lparr>ancestors := [],
                  effectiveFeePerVsize :=
                    Some (max 0 (rat_of_nat (fee (h k)) / (rat_of_nat (weight (h k)) / 4))),
                  cpfpChecked := Some True\<rparr>)"

definition plainCommon :: common where
  "plainCommon =
     \<lparr>stripTransaction = stripPlain, calcEffectiveFeeStatistics = (\<lambda>txs. (0, [])),
      setRelativesAndGetCpfpInfo = resolveAlone\<rparr>"

text \<open>A stripped transaction from its id and rate, a block from its stripped
  transactions, and two successive snapshots: \<open>aa\<close> changes its rate from 5 to 7, \<open>cc\<close>
  gets a rate, \<open>dd\<close> is new, and \<open>bb\<close> moves from block 0 to a new block 1.\<close>

definition mkStripped :: "string \<Rightarrow> rat option \<Rightarrow> stripped" where
  "mkStripped i r = \<lparr>s_txid = i, s_fee = 0, s_vsize = 0, rate = r\<rparr>"

definition mkBlock :: "stripped list \<Rightarrow> mempoolBlockWithTransactions" where
  "mkBlock ts =
     \<lparr>blockSize = 0, blockVSize = 0, nTx = length ts, totalFees = 0, medianFee = 0,
      feeRange = [], transactionIds = map s_txid ts, transactions = ts\<rparr>"

definition prevDemo :: "mempoolBlockWithTransactions list" where
  "prevDemo = [mkBlock [mkStripped ''aa'' (Some 5), mkStripped ''bb'' (Some 3),
                        mkStripped ''cc'' None]]"

definition newDemo :: "mempoolBlockWithTransactions list" where
  "newDemo = [mkBlock [mkStripped ''aa'' (Some 7), mkStripped ''cc'' (Some 1),
                       mkStripped ''dd'' (Some 2)],
              mkBlock [mkStripped ''bb'' (Some 3)]]"

text \<open>A blank record: weight, vsize and fee are 0.\<close>

definition blankTx :: "string \<Rightarrow> tx" where
  "blankTx i =
     \<lparr>txid = i, fee = 0, weight = 0, vsize = 0, tsize = 0, feePerVsize = 0,
      effectiveFeePerVsize = None, vin = [], ancestors = [], descendants = [],
      bestDescendant = None, cpfpChecked = None, position = None\<rparr>"

text \<open>A mempool from its transactions, keyed by txid; an address that is not a key holds
  a blank record.\<close>

definition mempoolOf :: "tx list \<Rightarrow> mempool" where
  "mempoolOf txs =
     (map txid txs,
      \<lambda>k. case List.find (\<lambda>t. txid t = k) txs of Some t \<Rightarrow> t | None \<Rightarrow> blankTx k)"

text \<open>Two mempools whose heavy transaction \<open>aa\<close> (fee rate 5) fills the weight cap of the
  resolver loop, so that \<open>bb\<close> (fee rate 1) lies beyond it. In the first one \<open>bb\<close> still
  carries the effective rate 9 of an earlier call; in the second it has none.\<close>

definition staleDemo :: mempool where
  "staleDemo = mempoolOf [(mkTx ''bb'' 400 100)\<lparr>effectiveFeePerVsize := Some 9\<rparr>,
                          mkTx ''aa'' 32000000 40000000]"

definition freshDemo :: mempool where
  "freshDemo = mempoolOf [mkTx ''bb'' 400 100, mkTx ''aa'' 32000000 40000000]"

text \<open>A configuration of two blocks of weight 1000, and three transactions of weight
  900 with the fee rates 4, 16/3 and 4/3.\<close>

definition smallConfig :: config where
  "smallConfig = \<lparr>BLOCK_WEIGHT_UNITS = 1000, MEMPOOL_BLOCKS_AMOUNT = 2\<rparr>"

definition smallDemo :: mempool where
  "smallDemo = mempoolOf [mkTx ''aa'' 900 900, mkTx ''bb'' 900 1200, mkTx ''cc'' 900 300]"

definition emptyState :: mempoolBlocksState where
  "emptyState = \<lparr>mempoolBlocks = [], mempoolBlockDeltas = []\<rparr>"

section \<open>Predicates of the statements\<close>

text \<open>Position \<open>i\<close> of the input of \<^verbatim>\<open>dataToMempoolBlocks\<close> passes the test of the
  relaxed cap: the weights of the transactions \<open>0\<close> to \<open>i\<close>, plus the weight of
  transaction \<open>i\<close> once more, stay within \<open>1.2\<close> times the block weight.\<close>

definition fits :: "config \<Rightarrow> tx list \<Rightarrow> nat \<Rightarrow> bool" where
  "fits cfg txs i \<longleftrightarrow>
     rat_of_nat (sum_list (map weight (take (Suc i) txs)) + weight (txs ! i))
       \<le> rat_of_nat (BLOCK_WEIGHT_UNITS cfg) * 1.2"

text \<open>A transaction with its position erased: two transactions that agree on it differ
  in \<^verbatim>\<open>position\<close> at most.\<close>

definition unplaced :: "tx \<Rightarrow> tx" where
  "unplaced t = t\<lparr>position := None\<rparr>"

text \<open>Every transaction of the list \<open>ts\<close> carries the position of block \<open>b\<close> at the
  mid-point of its vsize: the vsizes of the transactions before it in \<open>ts\<close>, plus half
  its own.\<close>

definition placed :: "nat \<Rightarrow> tx list \<Rightarrow> bool" where
  "placed b ts \<longleftrightarrow>
     list_all (\<lambda>j. position (ts ! j) =
                  Some \<lparr>block = b,
                        p_vsize = sum_list (map vsize (take j ts)) + vsize (ts ! j) / 2\<rparr>)
       [0..<length ts]"

text \<open>The invariant of the loop of \<^verbatim>\<open>calculateMempoolBlocks\<close> when it has consumed the
  transactions \<open>done\<close>.\<close>

definition packInv :: "config \<Rightarrow> common \<Rightarrow> tx list \<Rightarrow> packer \<Rightarrow> bool" where
  "packInv cfg cmn done s \<longleftrightarrow>
     (case s of (blocks, blockWeight, blockVsize, txs, assembled) \<Rightarrow>
        blocks = map (dataToMempoolBlocks cfg cmn) assembled
        \<and> blockWeight = sum_list (map weight txs)
        \<and> blockVsize = sum_list (map vsize txs)
        \<and> map unplaced (concat assembled @ txs) = map unplaced done
        \<and> placed (length blocks) txs
        \<and> list_all (\<lambda>b. placed b (assembled ! b)) [0..<length assembled])"

text \<open>The weights in the loop: every finished block is within the block weight, and so
  is the current one unless it is the last permitted block.\<close>

definition packWeights :: "config \<Rightarrow> packer \<Rightarrow> bool" where
  "packWeights cfg s \<longleftrightarrow>
     (case s of (blocks, blockWeight, blockVsize, txs, assembled) \<Rightarrow>
        list_all (\<lambda>a. sum_list (map weight a) \<le> BLOCK_WEIGHT_UNITS cfg) assembled
        \<and> (sum_list (map weight txs) \<le> BLOCK_WEIGHT_UNITS cfg
           \<or> int (length blocks) = MEMPOOL_BLOCKS_AMOUNT cfg - 1))"

text \<open>The mempool is keyed by txid: a key occurs once, and the transaction under a key
  has that key as its \<^verbatim>\<open>txid\<close>.\<close>

definition keyedByTxid :: "mempool \<Rightarrow> bool" where
  "keyedByTxid memPool \<longleftrightarrow>
     (case memPool of (keys, h) \<Rightarrow> distinct keys \<and> list_all (\<lambda>k. txid (h k) = k) keys)"

text \<open>
  Modelled from the spec: the frame of \<^verbatim>\<open>Common.setRelativesAndGetCpfpInfo(tx, memPool)\<close>,
  which is not in the sources. By section 4.1 of the specification it populates
  \<^verbatim>\<open>tx.ancestors\<close>, updates the \<^verbatim>\<open>bestDescendant\<close> of ancestors, recomputes
  \<^verbatim>\<open>tx.effectiveFeePerVsize\<close> and sets \<^verbatim>\<open>tx.cpfpChecked\<close>. So it leaves the \<^verbatim>\<open>txid\<close>,
  \<^verbatim>\<open>weight\<close> and \<^verbatim>\<open>feePerVsize\<close> of every transaction as they are, and the
  \<^verbatim>\<open>effectiveFeePerVsize\<close> of every transaction but \<^verbatim>\<open>tx\<close>.
\<close>

definition resolverFrame :: "(string \<Rightarrow> string list \<Rightarrow> heap \<Rightarrow> heap) \<Rightarrow> bool" where
  "resolverFrame r \<longleftrightarrow>
     (\<forall>k ks h k'.
        txid (r k ks h k') = txid (h k')
        \<and> weight (r k ks h k') = weight (h k')
        \<and> feePerVsize (r k ks h k') = feePerVsize (h k')
        \<and> (k' \<noteq> k \<longrightarrow> effectiveFeePerVsize (r k ks h k') = effectiveFeePerVsize (h k')))"

text \<open>Position \<open>i\<close> of the array is within the weight cap of the resolver loop: the
  weights \<open>w\<close> of the transactions \<open>0\<close> to \<open>i\<close> do not exceed \<open>4000000 \<times> 8\<close>.\<close>

definition underCap :: "(string \<Rightarrow> nat) \<Rightarrow> string list \<Rightarrow> nat \<Rightarrow> bool" where
  "underCap w arr i \<longleftrightarrow> sum_list (map w (take (Suc i) arr)) \<le> 4000000 * 8"

text \<open>The invariant of the resolver loop when it has consumed the transactions \<open>done\<close>,
  starting from the store \<open>h1\<close>.\<close>

definition resolveInv :: "heap \<Rightarrow> string list \<Rightarrow> nat \<times> heap \<times> string list \<Rightarrow> bool" where
  "resolveInv h1 done s \<longleftrightarrow>
     (case s of (sizes, h', calls) \<Rightarrow>
        sizes = sum_list (map (\<lambda>k. weight (h1 k)) done)
        \<and> (\<forall>k. txid (h' k) = txid (h1 k) \<and> weight (h' k) = weight (h1 k)
                \<and> feePerVsize (h' k) = feePerVsize (h1 k))
        \<and> calls = map (\<lambda>i. done ! i)
                    (filter (underCap (\<lambda>k. weight (h1 k)) done) [0..<length done])
        \<and> (\<forall>k. k \<notin> set calls \<longrightarrow> effectiveFeePerVsize (h' k) = effectiveFeePerVsize (h1 k)))"

section \<open>Properties of \<^verbatim>\<open>dataToMempoolBlocks\<close>\<close>

lemma fits_append: "i < length xs \<Longrightarrow> fits cfg (xs @ ys) i = fits cfg xs i"
  by (simp add: fits_def nth_append)

lemma fits_last:
  "fits cfg (xs @ [x]) (length xs) \<longleftrightarrow>
     rat_of_nat (sum_list (map weight xs) + weight x + weight x)
       \<le> rat_of_nat (BLOCK_WEIGHT_UNITS cfg) * 1.2"
  by (simp add: fits_def)

text \<open>What the loop of \<^verbatim>\<open>dataToMempoolBlocks\<close> computes.\<close>

lemma fitStep_foldl:
  "foldl (fitStep cfg) (0, 0, []) txs =
     (sum_list (map tsize txs), sum_list (map weight txs),
      map (\<lambda>i. txs ! i) (filter (fits cfg txs) [0..<length txs]))"
proof (induction txs rule: rev_induct)
  case Nil
  show ?case by simp
next
  case (snoc x xs)
  have f: "filter (fits cfg (xs @ [x])) [0..<length xs] = filter (fits cfg xs) [0..<length xs]"
    by (rule filter_cong) (auto simp: fits_append)
  have m: "\<And>P. map (\<lambda>i. (xs @ [x]) ! i) (filter P [0..<length xs])
                = map (\<lambda>i. xs ! i) (filter P [0..<length xs])"
    by (rule map_cong) (auto simp: nth_append)
  have s: "fitStep cfg (sum_list (map tsize xs), sum_list (map weight xs),
             map (\<lambda>i. xs ! i) (filter (fits cfg xs) [0..<length xs])) x
           = (sum_list (map tsize (xs @ [x])), sum_list (map weight (xs @ [x])),
              map (\<lambda>i. (xs @ [x]) ! i)
                (filter (fits cfg (xs @ [x])) [0..<length (xs @ [x])]))"
    by (simp add: f m fits_last Let_def)
  show ?case
    using snoc.IH s by simp
qed

lemma fitTransactions_eq:
  "fitTransactions cfg txs = map (\<lambda>i. txs ! i) (filter (fits cfg txs) [0..<length txs])"
  by (simp add: fitTransactions_def fitStep_foldl)

lemma dataToMempoolBlocks_transactions:
  "transactions (dataToMempoolBlocks cfg cmn txs)
     = map (stripTransaction cmn) (fitTransactions cfg txs)"
  by (simp add: dataToMempoolBlocks_def fitTransactions_def Let_def split: prod.splits)

lemma dataToMempoolBlocks_blockVSize:
  "blockVSize (dataToMempoolBlocks cfg cmn txs) = rat_of_nat (sum_list (map weight txs)) / 4"
  by (simp add: dataToMempoolBlocks_def fitStep_foldl Let_def)

lemma dataToMempoolBlocks_transactionIds:
  "transactionIds (dataToMempoolBlocks cfg cmn txs) = map txid txs"
  by (simp add: dataToMempoolBlocks_def Let_def split: prod.splits)

lemma dataToMempoolBlocks_nTx:
  "nTx (dataToMempoolBlocks cfg cmn txs) = length txs"
  by (simp add: dataToMempoolBlocks_def Let_def split: prod.splits)

text \<open>
  Claim C3. For every sequence of transactions given to \<^verbatim>\<open>dataToMempoolBlocks\<close>, the
  client-facing \<^verbatim>\<open>transactions\<close> are the stripped forms of the transactions at exactly
  those positions \<open>i\<close>, in order, for which \<open>W\<^sub>i + weight\<^sub>i \<le> 1.2 \<times> BLOCK_WEIGHT_UNITS\<close>,
  where \<open>W\<^sub>i\<close> is the sum of the weights of the transactions \<open>0\<close> to \<open>i\<close> inclusive.
\<close>

theorem C3_retained_positions:
  "transactions (dataToMempoolBlocks cfg cmn txs) =
     map (\<lambda>i. stripTransaction cmn (txs ! i))
       (filter (\<lambda>i. rat_of_nat (sum_list (map weight (take (Suc i) txs)) + weight (txs ! i))
                       \<le> 1.2 * rat_of_nat (BLOCK_WEIGHT_UNITS cfg))
          [0..<length txs])"
proof -
  have "fits cfg txs =
          (\<lambda>i. rat_of_nat (sum_list (map weight (take (Suc i) txs)) + weight (txs ! i))
                  \<le> 1.2 * rat_of_nat (BLOCK_WEIGHT_UNITS cfg))"
    by (rule ext) (simp add: fits_def mult.commute)
  then show ?thesis
    by (simp add: dataToMempoolBlocks_transactions fitTransactions_eq comp_def)
qed

lemma fits_weight:
  assumes "fits cfg txs i" and "i < length txs"
  shows "rat_of_nat (weight (txs ! i)) \<le> 0.6 * rat_of_nat (BLOCK_WEIGHT_UNITS cfg)"
proof -
  have "take (Suc i) txs = take i txs @ [txs ! i]"
    using assms(2) by (simp add: take_Suc_conv_app_nth)
  then have "weight (txs ! i) \<le> sum_list (map weight (take (Suc i) txs))"
    by simp
  then have "rat_of_nat (weight (txs ! i))
               \<le> rat_of_nat (sum_list (map weight (take (Suc i) txs)))"
    by (simp only: of_nat_le_iff)
  with assms(1) show ?thesis
    by (simp add: fits_def)
qed

text \<open>
  Claim C10. In \<^verbatim>\<open>dataToMempoolBlocks\<close> the client-facing \<^verbatim>\<open>transactions\<close> are the
  stripped forms of \<^verbatim>\<open>fitTransactions\<close>, and every transaction in \<^verbatim>\<open>fitTransactions\<close>
  has a weight of at most \<open>0.6 \<times> BLOCK_WEIGHT_UNITS\<close>: a transaction heavier than that
  is never retained. For an input that is a single such transaction the summary has
  \<^verbatim>\<open>nTx = 1\<close>, the one txid in \<^verbatim>\<open>transactionIds\<close>, and no \<^verbatim>\<open>transactions\<close>.
\<close>

theorem C10_heavy_never_retained:
  "transactions (dataToMempoolBlocks cfg cmn txs)
     = map (stripTransaction cmn) (fitTransactions cfg txs)
   \<and> (\<forall>t \<in> set (fitTransactions cfg txs).
         t \<in> set txs \<and> rat_of_nat (weight t) \<le> 0.6 * rat_of_nat (BLOCK_WEIGHT_UNITS cfg))
   \<and> (0.6 * rat_of_nat (BLOCK_WEIGHT_UNITS cfg) < rat_of_nat (weight t0) \<longrightarrow>
        nTx (dataToMempoolBlocks cfg cmn [t0]) = 1
        \<and> transactionIds (dataToMempoolBlocks cfg cmn [t0]) = [txid t0]
        \<and> transactions (dataToMempoolBlocks cfg cmn [t0]) = [])"
proof (intro conjI impI ballI)
  show "transactions (dataToMempoolBlocks cfg cmn txs)
          = map (stripTransaction cmn) (fitTransactions cfg txs)"
    by (rule dataToMempoolBlocks_transactions)
next
  fix t assume "t \<in> set (fitTransactions cfg txs)"
  then obtain i where i: "i < length txs" "fits cfg txs i" "t = txs ! i"
    by (auto simp: fitTransactions_eq)
  show "t \<in> set txs" using i by simp
  show "rat_of_nat (weight t) \<le> 0.6 * rat_of_nat (BLOCK_WEIGHT_UNITS cfg)"
    using fits_weight[OF i(2) i(1)] i(3) by simp
next
  assume h: "0.6 * rat_of_nat (BLOCK_WEIGHT_UNITS cfg) < rat_of_nat (weight t0)"
  show "nTx (dataToMempoolBlocks cfg cmn [t0]) = 1"
    by (simp add: dataToMempoolBlocks_nTx)
  show "transactionIds (dataToMempoolBlocks cfg cmn [t0]) = [txid t0]"
    by (simp add: dataToMempoolBlocks_transactionIds)
  show "transactions (dataToMempoolBlocks cfg cmn [t0]) = []"
    using h by (simp add: dataToMempoolBlocks_def Let_def)
qed

text \<open>The default configuration, a transaction of weight 3000000 followed by one of
  weight 800: only the second one is retained; alone, the first one gives a block of
  one transaction with nothing to show.\<close>

theorem C10_heavy_never_retained_witness:
  "transactions (dataToMempoolBlocks defaultConfig plainCommon
       [mkTx ''aa'' 3000000 5000, mkTx ''bb'' 800 400])
     = [stripPlain (mkTx ''bb'' 800 400)]
   \<and> nTx (dataToMempoolBlocks defaultConfig plainCommon [mkTx ''aa'' 3000000 5000]) = 1
   \<and> transactionIds (dataToMempoolBlocks defaultConfig plainCommon [mkTx ''aa'' 3000000 5000])
       = [''aa'']
   \<and> transactions (dataToMempoolBlocks defaultConfig plainCommon [mkTx ''aa'' 3000000 5000])
       = []"
  using C10_heavy_never_retained[of defaultConfig plainCommon
      "[mkTx ''aa'' 3000000 5000, mkTx ''bb'' 800 400]" "mkTx ''aa'' 3000000 5000"]
  by (simp add: fitTransactions_def defaultConfig_def plainCommon_def mkTx_def)

section \<open>Properties of \<^verbatim>\<open>calculateMempoolBlocks\<close>\<close>

lemma placed_Nil: "placed b []"
  by (simp add: placed_def)

lemma placed_snoc:
  "placed b (ts @ [t]) \<longleftrightarrow>
     placed b ts
     \<and> position t = Some \<lparr>block = b, p_vsize = sum_list (map vsize ts) + vsize t / 2\<rparr>"
  by (auto simp: placed_def list_all_iff nth_append)

lemma placed_nth:
  "placed b ts \<Longrightarrow> j < length ts \<Longrightarrow>
     position (ts ! j)
       = Some \<lparr>block = b, p_vsize = sum_list (map vsize (take j ts)) + vsize (ts ! j) / 2\<rparr>"
  by (simp add: placed_def list_all_iff)

lemma packInv_init: "packInv cfg cmn [] ([], 0, 0, [], [])"
  by (simp add: packInv_def placed_Nil)

lemma packInv_step:
  assumes "packInv cfg cmn done s"
  shows "packInv cfg cmn (done @ [t]) (packStep cfg cmn s t)"
proof -
  obtain blocks bw bv txs asm where s: "s = (blocks, bw, bv, txs, asm)"
    by (cases s) auto
  have asm: "list_all (\<lambda>b. placed b ((asm @ [txs]) ! b)) [0..<length asm]
             = list_all (\<lambda>b. placed b (asm ! b)) [0..<length asm]"
    by (simp add: list_all_iff nth_append)
  show ?thesis
    using assms unfolding s
    by (auto simp: packInv_def placed_snoc Let_def unplaced_def asm placed_Nil
        placed_snoc[of _ "[]", simplified])
qed

lemma packInv_foldl: "packInv cfg cmn txs (foldl (packStep cfg cmn) ([], 0, 0, [], []) txs)"
proof (induction txs rule: rev_induct)
  case Nil
  show ?case by (simp add: packInv_init)
next
  case (snoc x xs)
  then show ?case by (simp add: packInv_step)
qed

text \<open>The result of the call: the blocks are the summaries of the assembled lists, the
  assembled lists are the input cut into consecutive pieces, and every piece is placed.\<close>

lemma packInv_final:
  "fst (calculateMempoolBlocks cfg cmn txs)
     = map (dataToMempoolBlocks cfg cmn) (snd (calculateMempoolBlocks cfg cmn txs))
   \<and> map unplaced (concat (snd (calculateMempoolBlocks cfg cmn txs))) = map unplaced txs
   \<and> list_all (\<lambda>b. placed b (snd (calculateMempoolBlocks cfg cmn txs) ! b))
        [0..<length (snd (calculateMempoolBlocks cfg cmn txs))]"
proof -
  obtain blocks bw bv cur asm
    where s: "foldl (packStep cfg cmn) ([], 0, 0, [], []) txs = (blocks, bw, bv, cur, asm)"
    by (cases "foldl (packStep cfg cmn) ([], 0, 0, [], []) txs") auto
  have inv: "packInv cfg cmn txs (blocks, bw, bv, cur, asm)"
    using packInv_foldl[of cfg cmn txs] by (simp add: s)
  have asm: "list_all (\<lambda>b. placed b ((asm @ [cur]) ! b)) [0..<length asm]
             = list_all (\<lambda>b. placed b (asm ! b)) [0..<length asm]"
    by (simp add: list_all_iff nth_append)
  show ?thesis
    using inv by (auto simp: calculateMempoolBlocks_def s packInv_def asm)
qed

lemma map_filter_snoc:
  "List.map_filter f (xs @ [x])
     = List.map_filter f xs @ (case f x of None \<Rightarrow> [] | Some y \<Rightarrow> [y])"
  by (induction xs) (auto simp: List.map_filter_simps split: option.splits)

lemma placed_increasing:
  assumes "placed b ts" and "\<forall>t \<in> set ts. 0 < vsize t"
  shows "sorted_wrt (<) (map p_vsize (List.map_filter position ts))
         \<and> (\<forall>p \<in> set (List.map_filter position ts). p_vsize p < sum_list (map vsize ts))"
  using assms
proof (induction ts rule: rev_induct)
  case Nil
  show ?case by (simp add: List.map_filter_simps)
next
  case (snoc t ts)
  have p: "placed b ts"
    and q: "position t = Some \<lparr>block = b, p_vsize = sum_list (map vsize ts) + vsize t / 2\<rparr>"
    using snoc.prems(1) by (simp_all add: placed_snoc)
  have v: "0 < vsize t" using snoc.prems(2) by simp
  have ih: "sorted_wrt (<) (map p_vsize (List.map_filter position ts))"
    "\<forall>p \<in> set (List.map_filter position ts). p_vsize p < sum_list (map vsize ts)"
    using snoc.IH[OF p] snoc.prems(2) by simp_all
  show ?case
    using ih v by (auto simp: map_filter_snoc q sorted_wrt_append intro: less_trans)
qed

lemma vsize_unplaced: "vsize (unplaced t) = vsize t"
  by (simp add: unplaced_def)

lemma weight_unplaced: "weight (unplaced t) = weight t"
  by (simp add: unplaced_def)

lemma assembled_vsize:
  assumes "map unplaced (concat asm) = map unplaced txs"
    and "\<forall>t \<in> set txs. P (vsize t) (weight t)"
    and "a \<in> set asm" and "t \<in> set a"
  shows "P (vsize t) (weight t)"
proof -
  have "unplaced t \<in> set (map unplaced (concat asm))"
    using assms(3,4) by auto
  then obtain t' where t': "t' \<in> set txs" "unplaced t = unplaced t'"
    unfolding assms(1) by auto
  have "vsize t = vsize t'" "weight t = weight t'"
    using t'(2) vsize_unplaced weight_unplaced by metis+
  then show ?thesis using assms(2) t'(1) by simp
qed

text \<open>
  Claim C4, amended. For every sequence of transactions given to
  \<^verbatim>\<open>calculateMempoolBlocks\<close>: the returned blocks are the summaries of the assembled
  lists, which are the input in packing order, unchanged but for \<^verbatim>\<open>position\<close>; in
  the block of index \<open>b\<close> the transaction at place \<open>j\<close> has \<^verbatim>\<open>position.block = b\<close> and
  \<^verbatim>\<open>position.vsize\<close> equal to the sum of the vsizes of the transactions before it in
  that block plus half its own vsize; and when every transaction has a positive vsize,
  the \<^verbatim>\<open>position.vsize\<close> values of each block are strictly increasing.
\<close>

theorem C4_positions:
  "fst (calculateMempoolBlocks cfg cmn txs)
     = map (dataToMempoolBlocks cfg cmn) (snd (calculateMempoolBlocks cfg cmn txs))
   \<and> map unplaced (concat (snd (calculateMempoolBlocks cfg cmn txs))) = map unplaced txs
   \<and> (\<forall>b < length (snd (calculateMempoolBlocks cfg cmn txs)).
        \<forall>j < length (snd (calculateMempoolBlocks cfg cmn txs) ! b).
          position (snd (calculateMempoolBlocks cfg cmn txs) ! b ! j)
            = Some \<lparr>block = b,
                    p_vsize =
                      sum_list (map vsize (take j (snd (calculateMempoolBlocks cfg cmn txs) ! b)))
                      + vsize (snd (calculateMempoolBlocks cfg cmn txs) ! b ! j) / 2\<rparr>)
   \<and> ((\<forall>t \<in> set txs. 0 < vsize t) \<longrightarrow>
        (\<forall>b < length (snd (calculateMempoolBlocks cfg cmn txs)).
           sorted_wrt (<) (map p_vsize
             (List.map_filter position (snd (calculateMempoolBlocks cfg cmn txs) ! b)))))"
proof -
  let ?asm = "snd (calculateMempoolBlocks cfg cmn txs)"
  have f: "fst (calculateMempoolBlocks cfg cmn txs) = map (dataToMempoolBlocks cfg cmn) ?asm"
    and u: "map unplaced (concat ?asm) = map unplaced txs"
    and pl: "\<And>b. b < length ?asm \<Longrightarrow> placed b (?asm ! b)"
    using packInv_final[of cfg cmn txs] by (simp_all add: list_all_iff)
  have inc: "sorted_wrt (<) (map p_vsize (List.map_filter position (?asm ! b)))"
    if pos: "\<forall>t \<in> set txs. 0 < vsize t" and b: "b < length ?asm" for b
  proof -
    have "\<forall>t \<in> set (?asm ! b). 0 < vsize t"
    proof
      fix t assume "t \<in> set (?asm ! b)"
      moreover have "?asm ! b \<in> set ?asm" using b by simp
      moreover have "\<forall>t \<in> set txs. (\<lambda>v w. 0 < v) (vsize t) (weight t)" using pos by simp
      ultimately show "0 < vsize t"
        using assembled_vsize[OF u, of "\<lambda>v w. 0 < v" "?asm ! b" t] by simp
    qed
    then show ?thesis using placed_increasing[OF pl[OF b]] by simp
  qed
  show ?thesis
    using f u inc by (auto simp: placed_nth[OF pl])
qed

text \<open>Three transactions of vsize 600000, 300000 and 500000 under the default
  configuration: two blocks, with the mid-points 300000 and 750000 in the first block
  and 250000 in the second.\<close>

theorem C4_positions_witness:
  "list_all (\<lambda>t. 0 < vsize t)
     [mkTx ''aa'' 2400000 9000, mkTx ''bb'' 1200000 3000, mkTx ''cc'' 2000000 2000]
   \<and> map (map position) (snd (calculateMempoolBlocks defaultConfig plainCommon
        [mkTx ''aa'' 2400000 9000, mkTx ''bb'' 1200000 3000, mkTx ''cc'' 2000000 2000]))
     = [[Some \<lparr>block = 0, p_vsize = 300000\<rparr>, Some \<lparr>block = 0, p_vsize = 750000\<rparr>],
        [Some \<lparr>block = 1, p_vsize = 250000\<rparr>]]"
  using C4_positions[of defaultConfig plainCommon
        "[mkTx ''aa'' 2400000 9000, mkTx ''bb'' 1200000 3000, mkTx ''cc'' 2000000 2000]"]
  by (simp add: calculateMempoolBlocks_def defaultConfig_def mkTx_def)

text \<open>Claim C4 as it is written fails for transactions of vsize 0: two of them in one
  block get the same \<^verbatim>\<open>position.vsize\<close>, so the values are not strictly increasing.\<close>

theorem C4_counterexample:
  "map (map position) (snd (calculateMempoolBlocks defaultConfig plainCommon
        [blankTx ''aa'', blankTx ''bb'']))
     = [[Some \<lparr>block = 0, p_vsize = 0\<rparr>, Some \<lparr>block = 0, p_vsize = 0\<rparr>]]
   \<and> \<not> sorted_wrt (<) (map p_vsize (List.map_filter position
          (snd (calculateMempoolBlocks defaultConfig plainCommon
             [blankTx ''aa'', blankTx ''bb'']) ! 0)))"
  by (simp add: calculateMempoolBlocks_def defaultConfig_def blankTx_def List.map_filter_simps)

lemma packCount_step:
  assumes "1 \<le> MEMPOOL_BLOCKS_AMOUNT cfg"
    and "int (length (fst s)) \<le> MEMPOOL_BLOCKS_AMOUNT cfg - 1"
  shows "int (length (fst (packStep cfg cmn s t))) \<le> MEMPOOL_BLOCKS_AMOUNT cfg - 1"
proof -
  obtain blocks bw bv txs asm where s: "s = (blocks, bw, bv, txs, asm)"
    by (cases s) auto
  show ?thesis using assms unfolding s by (auto simp: Let_def)
qed

lemma packCount_foldl:
  assumes "1 \<le> MEMPOOL_BLOCKS_AMOUNT cfg"
  shows "int (length (fst (foldl (packStep cfg cmn) ([], 0, 0, [], []) txs)))
           \<le> MEMPOOL_BLOCKS_AMOUNT cfg - 1"
proof (induction txs rule: rev_induct)
  case Nil
  show ?case using assms by simp
next
  case (snoc x xs)
  then show ?case using packCount_step[OF assms] by simp
qed

text \<open>
  Claim C7. For every sequence of transactions given to \<^verbatim>\<open>calculateMempoolBlocks\<close>,
  assuming \<open>MEMPOOL_BLOCKS_AMOUNT \<ge> 1\<close>, the number of blocks returned is at most
  \<open>MEMPOOL_BLOCKS_AMOUNT\<close>.
\<close>

theorem C7_block_count:
  assumes "1 \<le> MEMPOOL_BLOCKS_AMOUNT cfg"
  shows "int (length (fst (calculateMempoolBlocks cfg cmn txs))) \<le> MEMPOOL_BLOCKS_AMOUNT cfg"
proof -
  obtain blocks bw bv cur asm
    where s: "foldl (packStep cfg cmn) ([], 0, 0, [], []) txs = (blocks, bw, bv, cur, asm)"
    by (cases "foldl (packStep cfg cmn) ([], 0, 0, [], []) txs") auto
  have "int (length blocks) \<le> MEMPOOL_BLOCKS_AMOUNT cfg - 1"
    using packCount_foldl[OF assms, of cmn txs] by (simp add: s)
  then show ?thesis
    by (simp add: calculateMempoolBlocks_def s)
qed

text \<open>Two blocks of weight 1000 are allowed and four transactions of weight 600 arrive:
  the first block takes one, the second block the other three.\<close>

theorem C7_block_count_witness:
  "1 \<le> MEMPOOL_BLOCKS_AMOUNT \<lparr>BLOCK_WEIGHT_UNITS = 1000, MEMPOOL_BLOCKS_AMOUNT = 2\<rparr>
   \<and> map transactionIds (fst (calculateMempoolBlocks
         \<lparr>BLOCK_WEIGHT_UNITS = 1000, MEMPOOL_BLOCKS_AMOUNT = 2\<rparr> plainCommon
         [mkTx ''aa'' 600 900, mkTx ''bb'' 600 800, mkTx ''cc'' 600 700, mkTx ''dd'' 600 600]))
     = [[''aa''], [''bb'', ''cc'', ''dd'']]"
  using C7_block_count[of "\<lparr>BLOCK_WEIGHT_UNITS = 1000, MEMPOOL_BLOCKS_AMOUNT = 2\<rparr>" plainCommon
        "[mkTx ''aa'' 600 900, mkTx ''bb'' 600 800, mkTx ''cc'' 600 700, mkTx ''dd'' 600 600]"]
  by (simp add: calculateMempoolBlocks_def dataToMempoolBlocks_transactionIds mkTx_def)

lemma packWeights_step:
  assumes "packWeights cfg s" and "weight t \<le> BLOCK_WEIGHT_UNITS cfg"
    and "packInv cfg cmn done s"
  shows "packWeights cfg (packStep cfg cmn s t)"
proof -
  obtain blocks bw bv txs asm where s: "s = (blocks, bw, bv, txs, asm)"
    by (cases s) auto
  show ?thesis using assms unfolding s
    by (auto simp: packWeights_def packInv_def Let_def)
qed

lemma packWeights_foldl:
  assumes "\<forall>t \<in> set txs. weight t \<le> BLOCK_WEIGHT_UNITS cfg"
  shows "packWeights cfg (foldl (packStep cfg cmn) ([], 0, 0, [], []) txs)"
  using assms
proof (induction txs rule: rev_induct)
  case Nil
  show ?case by (simp add: packWeights_def)
next
  case (snoc x xs)
  then show ?case using packWeights_step[OF _ _ packInv_foldl] by simp
qed

text \<open>
  Claim C2, amended. For every sequence of transactions given to
  \<^verbatim>\<open>calculateMempoolBlocks\<close> in which no transaction weighs more than
  \<open>BLOCK_WEIGHT_UNITS\<close>, every returned block except possibly the last one has a total
  transaction weight (four times its \<^verbatim>\<open>blockVSize\<close>, the sum of the weights of its
  transactions) of at most \<open>BLOCK_WEIGHT_UNITS\<close>.
\<close>

theorem C2_block_weight:
  assumes "\<forall>t \<in> set txs. weight t \<le> BLOCK_WEIGHT_UNITS cfg"
    and "Suc b < length (fst (calculateMempoolBlocks cfg cmn txs))"
  shows "blockVSize (fst (calculateMempoolBlocks cfg cmn txs) ! b) * 4
           = rat_of_nat (sum_list (map weight (snd (calculateMempoolBlocks cfg cmn txs) ! b)))
         \<and> sum_list (map weight (snd (calculateMempoolBlocks cfg cmn txs) ! b))
             \<le> BLOCK_WEIGHT_UNITS cfg"
proof -
  let ?asm = "snd (calculateMempoolBlocks cfg cmn txs)"
  obtain blocks bw bv cur asm
    where s: "foldl (packStep cfg cmn) ([], 0, 0, [], []) txs = (blocks, bw, bv, cur, asm)"
    by (cases "foldl (packStep cfg cmn) ([], 0, 0, [], []) txs") auto
  have f: "fst (calculateMempoolBlocks cfg cmn txs) = map (dataToMempoolBlocks cfg cmn) ?asm"
    using packInv_final[of cfg cmn txs] by simp
  have len: "Suc b < length ?asm" using assms(2) by (simp add: f)
  have w: "list_all (\<lambda>a. sum_list (map weight a) \<le> BLOCK_WEIGHT_UNITS cfg) asm"
    using packWeights_foldl[OF assms(1), of cmn] by (simp add: s packWeights_def)
  have "?asm = asm \<or> ?asm = asm @ [cur]"
    by (simp add: calculateMempoolBlocks_def s)
  then have b: "b < length asm" "?asm ! b = asm ! b"
    using len by (auto simp: nth_append)
  have "sum_list (map weight (asm ! b)) \<le> BLOCK_WEIGHT_UNITS cfg"
    using w b(1) by (simp add: list_all_iff)
  moreover have "blockVSize (fst (calculateMempoolBlocks cfg cmn txs) ! b) * 4
           = rat_of_nat (sum_list (map weight (?asm ! b)))"
    using len by (simp add: f dataToMempoolBlocks_blockVSize)
  ultimately show ?thesis using b(2) by simp
qed

text \<open>The transactions of the witness of C4: the first block, of two blocks, weighs
  3600000.\<close>

theorem C2_block_weight_witness:
  "list_all (\<lambda>t. weight t \<le> BLOCK_WEIGHT_UNITS defaultConfig)
     [mkTx ''aa'' 2400000 9000, mkTx ''bb'' 1200000 3000, mkTx ''cc'' 2000000 2000]
   \<and> length (fst (calculateMempoolBlocks defaultConfig plainCommon
        [mkTx ''aa'' 2400000 9000, mkTx ''bb'' 1200000 3000, mkTx ''cc'' 2000000 2000])) = 2
   \<and> blockVSize (fst (calculateMempoolBlocks defaultConfig plainCommon
        [mkTx ''aa'' 2400000 9000, mkTx ''bb'' 1200000 3000, mkTx ''cc'' 2000000 2000]) ! 0) * 4
       = 3600000"
  using C2_block_weight[of
        "[mkTx ''aa'' 2400000 9000, mkTx ''bb'' 1200000 3000, mkTx ''cc'' 2000000 2000]"
        defaultConfig 0 plainCommon]
  by (simp add: calculateMempoolBlocks_def dataToMempoolBlocks_blockVSize defaultConfig_def
      mkTx_def)

text \<open>Claim C2 as it is written fails when a transaction is heavier than a block: under
  the default configuration a transaction of weight 4000001 followed by one of weight
  400 gives three blocks, an empty one, then one of weight 4000001, then the last.\<close>

theorem C2_counterexample:
  "map transactionIds (fst (calculateMempoolBlocks defaultConfig plainCommon
       [mkTx ''aa'' 4000001 9000, mkTx ''bb'' 400 100]))
     = [[], [''aa''], [''bb'']]
   \<and> blockVSize (fst (calculateMempoolBlocks defaultConfig plainCommon
       [mkTx ''aa'' 4000001 9000, mkTx ''bb'' 400 100]) ! 1) * 4 = 4000001
   \<and> rat_of_nat (BLOCK_WEIGHT_UNITS defaultConfig)
       < blockVSize (fst (calculateMempoolBlocks defaultConfig plainCommon
           [mkTx ''aa'' 4000001 9000, mkTx ''bb'' 400 100]) ! 1) * 4"
  by (simp add: calculateMempoolBlocks_def dataToMempoolBlocks_blockVSize
      dataToMempoolBlocks_transactionIds defaultConfig_def mkTx_def)

section \<open>Properties of \<^verbatim>\<open>calculateMempoolDeltas\<close>\<close>

text \<open>The temporary objects as maps, and the two loops that fill the lists.\<close>

lemma mkNewIds_foldl:
  "foldl (\<lambda>newIds t. newIds(s_txid t \<mapsto> True)) m ts k
     = (if k \<in> s_txid ` set ts then Some True else m k)"
  by (induction ts arbitrary: m) auto

lemma mkNewIds_eq: "mkNewIds ts k = (if k \<in> s_txid ` set ts then Some True else None)"
  by (simp add: mkNewIds_def mkNewIds_foldl)

lemma mkPrevIds_foldl:
  "foldl (\<lambda>prevIds t. prevIds(s_txid t \<mapsto> t)) m ts k
     = (if k \<in> s_txid ` set ts then Some (last (filter (\<lambda>p. s_txid p = k) ts)) else m k)"
proof (induction ts arbitrary: m rule: rev_induct)
  case Nil
  show ?case by simp
next
  case (snoc x xs)
  have "foldl (\<lambda>prevIds t. prevIds(s_txid t \<mapsto> t)) m (xs @ [x]) k
          = (if k = s_txid x then Some x
             else foldl (\<lambda>prevIds t. prevIds(s_txid t \<mapsto> t)) m xs k)"
    by simp
  also have "\<dots> = (if k = s_txid x then Some x
             else if k \<in> s_txid ` set xs then Some (last (filter (\<lambda>p. s_txid p = k) xs)) else m k)"
    by (simp only: snoc.IH)
  also have "\<dots> = (if k \<in> s_txid ` set (xs @ [x])
                      then Some (last (filter (\<lambda>p. s_txid p = k) (xs @ [x]))) else m k)"
    by auto
  finally show ?case .
qed

lemma mkPrevIds_eq:
  "mkPrevIds ts k
     = (if k \<in> s_txid ` set ts then Some (last (filter (\<lambda>p. s_txid p = k) ts)) else None)"
  by (simp add: mkPrevIds_def mkPrevIds_foldl)

lemma removedStep_foldl:
  "foldl (removedStep newIds) acc ts
     = acc @ map s_txid (filter (\<lambda>t. newIds (s_txid t) \<noteq> Some True) ts)"
  by (induction ts arbitrary: acc) auto

lemma addedStep_foldl:
  "foldl (addedStep prevIds) (add, chg) ts
     = (add @ filter (\<lambda>t. prevIds (s_txid t) = None) ts,
        chg @ map (\<lambda>t. (s_txid t, rate t))
                (filter (\<lambda>t. case prevIds (s_txid t) of None \<Rightarrow> False | Some p \<Rightarrow> rate t \<noteq> rate p) ts))"
  by (induction ts arbitrary: add chg) (auto split: option.splits)

lemma length_calculateMempoolDeltas:
  "length (calculateMempoolDeltas prevBlocks newBlocks) = max (length prevBlocks) (length newBlocks)"
  by (simp add: calculateMempoolDeltas_def max.commute)

lemma deltaAt_both:
  assumes "i < length prevBlocks" and "i < length newBlocks"
  shows "deltaAt prevBlocks newBlocks i =
     \<lparr>added = filter (\<lambda>t. s_txid t \<notin> s_txid ` set (transactions (prevBlocks ! i)))
                (transactions (newBlocks ! i)),
      removed = map s_txid (filter (\<lambda>t. s_txid t \<notin> s_txid ` set (transactions (newBlocks ! i)))
                (transactions (prevBlocks ! i))),
      changed = map (\<lambda>t. (s_txid t, rate t))
                  (filter (\<lambda>t. s_txid t \<in> s_txid ` set (transactions (prevBlocks ! i))
                              \<and> rate t \<noteq> rate (last (filter (\<lambda>p. s_txid p = s_txid t)
                                                          (transactions (prevBlocks ! i)))))
                     (transactions (newBlocks ! i)))\<rparr>"
proof -
  have a: "(\<lambda>t. mkPrevIds P (s_txid t) = None) = (\<lambda>t. s_txid t \<notin> s_txid ` set P)" for P
    by (rule ext) (simp add: mkPrevIds_eq)
  have r: "(\<lambda>t. mkNewIds N (s_txid t) \<noteq> Some True) = (\<lambda>t. s_txid t \<notin> s_txid ` set N)" for N
    by (rule ext) (simp add: mkNewIds_eq)
  have c: "(\<lambda>t. case mkPrevIds P (s_txid t) of None \<Rightarrow> False | Some p \<Rightarrow> rate t \<noteq> rate p)
         = (\<lambda>t. s_txid t \<in> s_txid ` set P
                 \<and> rate t \<noteq> rate (last (filter (\<lambda>p. s_txid p = s_txid t) P)))" for P
    by (rule ext) (simp add: mkPrevIds_eq)
  show ?thesis
    using assms
    by (simp add: deltaAt_def nthOpt_def Let_def removedStep_foldl addedStep_foldl a r c)
qed

lemma calculateMempoolDeltas_nth:
  "i < length prevBlocks \<Longrightarrow> i < length newBlocks \<Longrightarrow>
     calculateMempoolDeltas prevBlocks newBlocks ! i = deltaAt prevBlocks newBlocks i"
  by (simp add: calculateMempoolDeltas_def)

lemma filter_unique:
  "distinct (map f xs) \<Longrightarrow> x \<in> set xs \<Longrightarrow> filter (\<lambda>y. f y = f x) xs = [x]"
proof (induction xs)
  case Nil
  then show ?case by simp
next
  case (Cons a xs)
  show ?case
  proof (cases "a = x")
    case True
    have "f x \<notin> f ` set xs"
      using Cons.prems(1) True by simp
    then have "filter (\<lambda>y. f y = f x) xs = []"
      unfolding filter_empty_conv by (metis imageI)
    then show ?thesis using True by simp
  next
    case False
    then have "x \<in> set xs" using Cons.prems(2) by simp
    moreover have "f a \<noteq> f x" using Cons.prems(1) calculation by auto
    ultimately show ?thesis using Cons by simp
  qed
qed

lemma demo_deltas:
  "calculateMempoolDeltas prevDemo newDemo
     = [\<lparr>added = [mkStripped ''dd'' (Some 2)], removed = [''bb''],
         changed = [(''aa'', Some 7), (''cc'', Some 1)]\<rparr>,
        \<lparr>added = [mkStripped ''bb'' (Some 3)], removed = [], changed = []\<rparr>]"
  by (simp add: calculateMempoolDeltas_def deltaAt_def nthOpt_def prevDemo_def newDemo_def
      mkBlock_def mkStripped_def mkPrevIds_def mkNewIds_def upt_rec)

text \<open>
  Claim C5. For every pair of block sequences \<^verbatim>\<open>prevBlocks\<close> and \<^verbatim>\<open>newBlocks\<close>,
  \<^verbatim>\<open>calculateMempoolDeltas\<close> returns a sequence of length \<open>max(|prev|, |new|)\<close>, and at
  every index \<open>i\<close> where both blocks exist: \<^verbatim>\<open>removed\<close> is the txids of
  \<^verbatim>\<open>prev[i].transactions\<close> that are not txids of \<^verbatim>\<open>new[i].transactions\<close>; \<^verbatim>\<open>added\<close> is the
  stripped records of \<^verbatim>\<open>new[i].transactions\<close> whose txid is not in
  \<^verbatim>\<open>prev[i].transactions\<close>; and \<^verbatim>\<open>changed\<close> holds \<open>(txid, rate)\<close> of exactly the records of
  \<^verbatim>\<open>new[i].transactions\<close> whose txid is in both and whose rate is not equal to the rate
  of the record of \<^verbatim>\<open>prev[i]\<close> with that txid (absent against present counts as not
  equal). Should \<^verbatim>\<open>prev[i]\<close> hold a txid twice, the record compared is the last one;
  where its txids are distinct, \<^verbatim>\<open>changed\<close> is the set of the \<open>(txid, rate)\<close> of the
  records of \<^verbatim>\<open>new[i]\<close> for which a record of \<^verbatim>\<open>prev[i]\<close> has the same txid and another
  rate.
\<close>

theorem C5_deltas:
  "length (calculateMempoolDeltas prevBlocks newBlocks)
     = max (length prevBlocks) (length newBlocks)
   \<and> (i < length prevBlocks \<and> i < length newBlocks \<longrightarrow>
        removed (calculateMempoolDeltas prevBlocks newBlocks ! i)
          = map s_txid (filter (\<lambda>p. s_txid p \<notin> s_txid ` set (transactions (newBlocks ! i)))
                          (transactions (prevBlocks ! i)))
        \<and> added (calculateMempoolDeltas prevBlocks newBlocks ! i)
          = filter (\<lambda>n. s_txid n \<notin> s_txid ` set (transactions (prevBlocks ! i)))
              (transactions (newBlocks ! i))
        \<and> changed (calculateMempoolDeltas prevBlocks newBlocks ! i)
          = map (\<lambda>n. (s_txid n, rate n))
              (filter (\<lambda>n. s_txid n \<in> s_txid ` set (transactions (prevBlocks ! i))
                          \<and> rate n \<noteq> rate (last (filter (\<lambda>p. s_txid p = s_txid n)
                                                      (transactions (prevBlocks ! i)))))
                 (transactions (newBlocks ! i)))
        \<and> (distinct (map s_txid (transactions (prevBlocks ! i))) \<longrightarrow>
             set (changed (calculateMempoolDeltas prevBlocks newBlocks ! i))
               = {(s_txid n, rate n) | n p.
                    n \<in> set (transactions (newBlocks ! i))
                    \<and> p \<in> set (transactions (prevBlocks ! i))
                    \<and> s_txid p = s_txid n \<and> rate n \<noteq> rate p}))"
proof (intro conjI impI)
  show "length (calculateMempoolDeltas prevBlocks newBlocks)
          = max (length prevBlocks) (length newBlocks)"
    by (rule length_calculateMempoolDeltas)
next
  assume i: "i < length prevBlocks \<and> i < length newBlocks"
  let ?P = "transactions (prevBlocks ! i)" and ?N = "transactions (newBlocks ! i)"
  let ?d = "calculateMempoolDeltas prevBlocks newBlocks ! i"
  have d: "?d = deltaAt prevBlocks newBlocks i"
    using i by (simp add: calculateMempoolDeltas_nth)
  show "removed ?d = map s_txid (filter (\<lambda>p. s_txid p \<notin> s_txid ` set ?N) ?P)"
    using i by (simp add: d deltaAt_both)
  show "added ?d = filter (\<lambda>n. s_txid n \<notin> s_txid ` set ?P) ?N"
    using i by (simp add: d deltaAt_both)
  show c: "changed ?d = map (\<lambda>n. (s_txid n, rate n))
              (filter (\<lambda>n. s_txid n \<in> s_txid ` set ?P
                          \<and> rate n \<noteq> rate (last (filter (\<lambda>p. s_txid p = s_txid n) ?P))) ?N)"
    using i by (simp add: d deltaAt_both)
  assume dist: "distinct (map s_txid ?P)"
  have u: "\<And>p n. p \<in> set ?P \<Longrightarrow> s_txid p = s_txid n \<Longrightarrow>
             last (filter (\<lambda>q. s_txid q = s_txid n) ?P) = p"
  proof -
    fix p n assume p: "p \<in> set ?P" "s_txid p = s_txid n"
    show "last (filter (\<lambda>q. s_txid q = s_txid n) ?P) = p"
      using filter_unique[OF dist p(1)] p(2) by simp
  qed
  have k: "(s_txid n \<in> s_txid ` set ?P
              \<and> rate n \<noteq> rate (last (filter (\<lambda>p. s_txid p = s_txid n) ?P)))
           = (\<exists>p. p \<in> set ?P \<and> s_txid p = s_txid n \<and> rate n \<noteq> rate p)" for n
  proof
    assume a: "s_txid n \<in> s_txid ` set ?P
              \<and> rate n \<noteq> rate (last (filter (\<lambda>p. s_txid p = s_txid n) ?P))"
    then obtain p where p: "p \<in> set ?P" "s_txid p = s_txid n" by auto
    then show "\<exists>p. p \<in> set ?P \<and> s_txid p = s_txid n \<and> rate n \<noteq> rate p"
      using a u[OF p] by auto
  next
    assume "\<exists>p. p \<in> set ?P \<and> s_txid p = s_txid n \<and> rate n \<noteq> rate p"
    then obtain p where p: "p \<in> set ?P" "s_txid p = s_txid n" "rate n \<noteq> rate p" by auto
    have "s_txid n \<in> s_txid ` set ?P" using p(1,2) by (metis imageI)
    then show "s_txid n \<in> s_txid ` set ?P
              \<and> rate n \<noteq> rate (last (filter (\<lambda>p. s_txid p = s_txid n) ?P))"
      using u[OF p(1,2)] p(3) by simp
  qed
  show "set (changed ?d) = {(s_txid n, rate n) | n p.
                    n \<in> set ?N \<and> p \<in> set ?P \<and> s_txid p = s_txid n \<and> rate n \<noteq> rate p}"
    unfolding c by (simp only: k) auto
qed

text \<open>The two snapshots: \<open>bb\<close> is removed from block 0, \<open>dd\<close> is added, \<open>aa\<close> and \<open>cc\<close>
  are changed; block 1 exists in the new snapshot only.\<close>

theorem C5_deltas_witness:
  "(0 < length prevDemo \<and> 0 < length newDemo)
   \<and> calculateMempoolDeltas prevDemo newDemo
     = [\<lparr>added = [mkStripped ''dd'' (Some 2)], removed = [''bb''],
         changed = [(''aa'', Some 7), (''cc'', Some 1)]\<rparr>,
        \<lparr>added = [mkStripped ''bb'' (Some 3)], removed = [], changed = []\<rparr>]"
  using C5_deltas[of prevDemo newDemo 0] demo_deltas
  by (simp add: prevDemo_def newDemo_def)

text \<open>
  Claim C6. For every pair of block sequences and every index \<open>i\<close> at which both
  \<^verbatim>\<open>prev[i]\<close> and \<^verbatim>\<open>new[i]\<close> exist: the txids of \<^verbatim>\<open>prev[i].transactions\<close>, without the
  delta's \<^verbatim>\<open>removed\<close> txids, together with the txids of the delta's \<^verbatim>\<open>added\<close> records,
  are the txids of \<^verbatim>\<open>new[i].transactions\<close>.
\<close>

theorem C6_delta_sound:
  assumes "i < length prevBlocks" and "i < length newBlocks"
  shows "(s_txid ` set (transactions (prevBlocks ! i))
            - set (removed (calculateMempoolDeltas prevBlocks newBlocks ! i)))
           \<union> s_txid ` set (added (calculateMempoolDeltas prevBlocks newBlocks ! i))
         = s_txid ` set (transactions (newBlocks ! i))"
proof -
  have d: "calculateMempoolDeltas prevBlocks newBlocks ! i = deltaAt prevBlocks newBlocks i"
    using assms by (simp add: calculateMempoolDeltas_nth)
  let ?P = "s_txid ` set (transactions (prevBlocks ! i))"
  let ?N = "s_txid ` set (transactions (newBlocks ! i))"
  have r: "set (removed (deltaAt prevBlocks newBlocks i)) = ?P - ?N"
    unfolding deltaAt_both[OF assms] by auto
  have a: "s_txid ` set (added (deltaAt prevBlocks newBlocks i)) = ?N - ?P"
    unfolding deltaAt_both[OF assms] by auto
  show ?thesis
    unfolding d r a by blast
qed

theorem C6_delta_sound_witness:
  "(0 < length prevDemo \<and> 0 < length newDemo)
   \<and> ({''aa'', ''bb'', ''cc''} - set (removed (calculateMempoolDeltas prevDemo newDemo ! 0)))
        \<union> s_txid ` set (added (calculateMempoolDeltas prevDemo newDemo ! 0))
      = {''aa'', ''cc'', ''dd''}"
  using C6_delta_sound[of 0 prevDemo newDemo] demo_deltas
  by (simp add: prevDemo_def newDemo_def mkBlock_def mkStripped_def insert_commute)

section \<open>Properties of \<^verbatim>\<open>updateMempoolBlocks\<close> and \<^verbatim>\<open>processBlockTemplates\<close>\<close>

text \<open>Sorting permutes the array, and sorts it for every order that the comparator
  decides.\<close>

lemma set_insertBy: "set (insertBy cmp x ys) = insert x (set ys)"
  by (induction ys) auto

lemma distinct_insertBy: "distinct (insertBy cmp x ys) \<longleftrightarrow> x \<notin> set ys \<and> distinct ys"
  by (induction ys) (auto simp: set_insertBy)

lemma length_insertBy: "length (insertBy cmp x ys) = Suc (length ys)"
  by (induction ys) auto

lemma set_sortBy: "set (sortBy cmp xs) = set xs"
  by (induction xs) (auto simp: sortBy_def set_insertBy)

lemma distinct_sortBy: "distinct (sortBy cmp xs) = distinct xs"
  by (induction xs) (auto simp: sortBy_def distinct_insertBy set_sortBy[unfolded sortBy_def])

lemma length_sortBy: "length (sortBy cmp xs) = length xs"
  by (induction xs) (auto simp: sortBy_def length_insertBy)

lemma sorted_insertBy:
  assumes tr: "\<And>a b c. R a b \<Longrightarrow> R b c \<Longrightarrow> R a c"
    and le: "\<And>a b. cmp a b \<le> 0 \<Longrightarrow> R a b"
    and ge: "\<And>a b. \<not> cmp a b \<le> 0 \<Longrightarrow> R b a"
    and s: "sorted_wrt R ys"
  shows "sorted_wrt R (insertBy cmp x ys)"
  using s
proof (induction ys)
  case Nil
  show ?case by simp
next
  case (Cons y ys)
  show ?case
  proof (cases "cmp x y \<le> 0")
    case True
    have "R x y" using le True by simp
    moreover have "\<forall>z \<in> set ys. R x z"
      using Cons.prems tr[OF \<open>R x y\<close>] by auto
    ultimately show ?thesis using True Cons.prems by simp
  next
    case False
    have "R y x" using ge False by simp
    then show ?thesis using False Cons by (auto simp: set_insertBy)
  qed
qed

lemma sorted_sortBy:
  assumes tr: "\<And>a b c. R a b \<Longrightarrow> R b c \<Longrightarrow> R a c"
    and le: "\<And>a b. cmp a b \<le> 0 \<Longrightarrow> R a b"
    and ge: "\<And>a b. \<not> cmp a b \<le> 0 \<Longrightarrow> R b a"
  shows "sorted_wrt R (sortBy cmp xs)"
proof (induction xs)
  case Nil
  show ?case by (simp add: sortBy_def)
next
  case (Cons x xs)
  have "sortBy cmp (x # xs) = insertBy cmp x (sortBy cmp xs)"
    by (simp add: sortBy_def)
  then show ?case
    using sorted_insertBy[of R cmp, OF tr le ge Cons.IH] by simp
qed

text \<open>The first loop.\<close>

lemma clearTx_fields:
  "weight (clearTx t) = weight t" "txid (clearTx t) = txid t"
  "feePerVsize (clearTx t) = feePerVsize t"
  "effectiveFeePerVsize (clearTx t)
     = (if effectiveFeePerVsize t = None \<or> effectiveFeePerVsize t = Some 0
        then Some (feePerVsize t) else effectiveFeePerVsize t)"
  by (simp_all add: clearTx_def Let_def)

lemma clearAll_foldl:
  "distinct ks \<Longrightarrow>
     foldl (\<lambda>h' k. h'(k := clearTx (h' k))) h ks k
       = (if k \<in> set ks then clearTx (h k) else h k)"
proof (induction ks arbitrary: h)
  case Nil
  show ?case by simp
next
  case (Cons a ks)
  have d: "distinct ks" "a \<notin> set ks" using Cons.prems by simp_all
  show ?case
    unfolding foldl_Cons Cons.IH[OF d(1)] using d(2) by auto
qed

lemma clearAll_apply:
  "distinct ks \<Longrightarrow> clearAll ks h k = (if k \<in> set ks then clearTx (h k) else h k)"
  by (simp add: clearAll_def clearAll_foldl)

lemma firstSort_perm:
  "set (firstSort (keys, h)) = set keys" "distinct (firstSort (keys, h)) = distinct keys"
  "length (firstSort (keys, h)) = length keys"
  by (simp_all add: firstSort_def Let_def set_sortBy distinct_sortBy length_sortBy)

lemma firstSort_sorted:
  assumes "distinct keys"
  shows "sorted_wrt (\<lambda>a b. feePerVsize (h b) < feePerVsize (h a)
                        \<or> (feePerVsize (h a) = feePerVsize (h b) \<and> txid (h a) \<le> txid (h b)))
           (firstSort (keys, h))"
proof -
  let ?h1 = "clearAll keys h"
  let ?R = "\<lambda>a b. feePerVsize (?h1 b) < feePerVsize (?h1 a)
                        \<or> (feePerVsize (?h1 a) = feePerVsize (?h1 b) \<and> txid (?h1 a) \<le> txid (?h1 b))"
  have s: "sorted_wrt ?R (sortBy (\<lambda>a b. byFeePerVsize (?h1 a) (?h1 b)) keys)"
  proof (rule sorted_sortBy)
    fix a b c assume "?R a b" "?R b c"
    then show "?R a c" by auto
  next
    fix a b assume "byFeePerVsize (?h1 a) (?h1 b) \<le> 0"
    then show "?R a b" by (auto simp: byFeePerVsize_def split: if_splits)
  next
    fix a b assume "\<not> byFeePerVsize (?h1 a) (?h1 b) \<le> 0"
    then show "?R b a" by (auto simp: byFeePerVsize_def split: if_splits)
  qed
  have e: "feePerVsize (?h1 k) = feePerVsize (h k)" "txid (?h1 k) = txid (h k)" for k
    using assms by (simp_all add: clearAll_apply clearTx_fields)
  show ?thesis
    using s by (simp add: firstSort_def Let_def e)
qed

text \<open>The resolver loop.\<close>

lemma underCap_append: "i < length xs \<Longrightarrow> underCap w (xs @ ys) i = underCap w xs i"
  by (simp add: underCap_def)

lemma underCap_last:
  "underCap w (xs @ [x]) (length xs) \<longleftrightarrow> sum_list (map w xs) + w x \<le> 4000000 * 8"
  by (simp add: underCap_def)

lemma calls_snoc:
  "map (\<lambda>i. (xs @ [x]) ! i) (filter (underCap w (xs @ [x])) [0..<length (xs @ [x])])
     = map (\<lambda>i. xs ! i) (filter (underCap w xs) [0..<length xs])
       @ (if sum_list (map w xs) + w x \<le> 4000000 * 8 then [x] else [])"
proof -
  have f: "filter (underCap w (xs @ [x])) [0..<length xs] = filter (underCap w xs) [0..<length xs]"
    by (rule filter_cong) (auto simp: underCap_append)
  have m: "\<And>P. map (\<lambda>i. (xs @ [x]) ! i) (filter P [0..<length xs])
                = map (\<lambda>i. xs ! i) (filter P [0..<length xs])"
    by (rule map_cong) (auto simp: nth_append)
  show ?thesis
    by (simp add: f m underCap_last)
qed

lemma resolveInv_init: "resolveInv h1 [] (0, h1, [])"
  by (simp add: resolveInv_def)

lemma resolveInv_step:
  assumes "resolveInv h1 done s" and "resolverFrame (setRelativesAndGetCpfpInfo cmn)"
  shows "resolveInv h1 (done @ [k]) (resolveStep cmn keys s k)"
proof -
  obtain sizes h' calls where s: "s = (sizes, h', calls)"
    by (cases s) auto
  let ?r = "setRelativesAndGetCpfpInfo cmn"
  let ?w = "\<lambda>k. weight (h1 k)"
  have inv: "sizes = sum_list (map ?w done)"
    "\<And>k. txid (h' k) = txid (h1 k)" "\<And>k. weight (h' k) = weight (h1 k)"
    "\<And>k. feePerVsize (h' k) = feePerVsize (h1 k)"
    "calls = map (\<lambda>i. done ! i) (filter (underCap ?w done) [0..<length done])"
    "\<And>k. k \<notin> set calls \<Longrightarrow> effectiveFeePerVsize (h' k) = effectiveFeePerVsize (h1 k)"
    using assms(1) by (simp_all add: resolveInv_def s)
  have fr: "\<And>k' . txid (?r k keys h' k') = txid (h' k')"
    "\<And>k'. weight (?r k keys h' k') = weight (h' k')"
    "\<And>k'. feePerVsize (?r k keys h' k') = feePerVsize (h' k')"
    "\<And>k'. k' \<noteq> k \<Longrightarrow> effectiveFeePerVsize (?r k keys h' k') = effectiveFeePerVsize (h' k')"
    using assms(2) by (simp_all add: resolverFrame_def)
  have cs: "map (\<lambda>i. (done @ [k]) ! i)
              (filter (underCap ?w (done @ [k])) [0..<length (done @ [k])])
            = calls @ (if sum_list (map ?w done) + ?w k \<le> 4000000 * 8 then [k] else [])"
    unfolding inv(5) by (rule calls_snoc)
  show ?thesis
  proof (cases "sum_list (map ?w done) + ?w k \<le> 4000000 * 8")
    case True
    then have st: "resolveStep cmn keys s k = (sizes + ?w k, ?r k keys h', calls @ [k])"
      by (simp add: s Let_def inv(1,3))
    show ?thesis
      unfolding st resolveInv_def prod.case cs
      using True by (simp add: inv fr)
  next
    case False
    then have st: "resolveStep cmn keys s k = (sizes + ?w k, h', calls)"
      by (simp add: s Let_def inv(1,3))
    show ?thesis
      unfolding st resolveInv_def prod.case cs
      using False by (simp add: inv)
  qed
qed

lemma resolveInv_foldl:
  assumes "resolverFrame (setRelativesAndGetCpfpInfo cmn)"
  shows "resolveInv h1 arr (foldl (resolveStep cmn keys) (0, h1, []) arr)"
proof (induction arr rule: rev_induct)
  case Nil
  show ?case by (simp add: resolveInv_init)
next
  case (snoc x xs)
  then show ?case using resolveInv_step[OF _ assms] by simp
qed

lemma resolveAll_inv:
  assumes "resolverFrame (setRelativesAndGetCpfpInfo cmn)"
  shows "resolveInv (clearAll keys h) (firstSort (keys, h)) (resolveAll cmn (keys, h))"
  using resolveInv_foldl[OF assms] by (simp add: resolveAll_def)

lemma storePositions_frame:
  assumes "\<And>t p. f (t\<lparr>position := p\<rparr>) = f t"
  shows "f (storePositions arr ts h k) = f (h k)"
proof -
  have "f (foldl (\<lambda>h' (k, t). h'(k := (h' k)\<lparr>position := position t\<rparr>)) h zs k) = f (h k)"
    for zs
  proof (induction zs arbitrary: h)
    case Nil
    show ?case by simp
  next
    case (Cons z zs)
    obtain a t where z: "z = (a, t)" by (cases z) auto
    show ?case
      using Cons.IH[of "h(a := (h a)\<lparr>position := position t\<rparr>)"] by (simp add: z assms)
  qed
  then show ?thesis by (simp add: storePositions_def)
qed

lemma storePositions_fields:
  "effectiveFeePerVsize (storePositions arr ts h k) = effectiveFeePerVsize (h k)"
  "feePerVsize (storePositions arr ts h k) = feePerVsize (h k)"
  "txid (storePositions arr ts h k) = txid (h k)"
  "weight (storePositions arr ts h k) = weight (h k)"
  by (rule storePositions_frame, simp)+

text \<open>The parts of the result.\<close>

lemma updateMempoolBlocks_heap:
  "snd (snd (snd (updateMempoolBlocks cfg cmn st memPool saveResults)))
     = storePositions (finalSort cmn memPool)
         (concat (snd (calculateMempoolBlocks cfg cmn
            (map (fst (snd (resolveAll cmn memPool))) (finalSort cmn memPool)))))
         (fst (snd (resolveAll cmn memPool)))"
  by (simp add: updateMempoolBlocks_def Let_def split: prod.splits)

lemma updateMempoolBlocks_blocks:
  "fst (updateMempoolBlocks cfg cmn st memPool saveResults)
     = fst (calculateMempoolBlocks cfg cmn
            (map (fst (snd (resolveAll cmn memPool))) (finalSort cmn memPool)))"
  by (simp add: updateMempoolBlocks_def Let_def split: prod.splits)

lemma updateMempoolBlocks_state:
  "fst (snd (updateMempoolBlocks cfg cmn st memPool saveResults))
     = saveBlocks saveResults (fst (updateMempoolBlocks cfg cmn st memPool saveResults)) st"
  by (simp add: updateMempoolBlocks_def Let_def split: prod.splits)

lemma finalSort_perm:
  "set (finalSort cmn (keys, h)) = set keys"
  "distinct (finalSort cmn (keys, h)) = distinct keys"
  by (simp_all add: finalSort_def case_prod_beta set_sortBy distinct_sortBy firstSort_perm)

lemma txid_unplaced: "txid (unplaced t) = txid t"
  by (simp add: unplaced_def)

lemma transactionIds_concat:
  "concat (map transactionIds (fst (calculateMempoolBlocks cfg cmn txs))) = map txid txs"
proof -
  let ?asm = "snd (calculateMempoolBlocks cfg cmn txs)"
  have f: "fst (calculateMempoolBlocks cfg cmn txs) = map (dataToMempoolBlocks cfg cmn) ?asm"
    and u: "map unplaced (concat ?asm) = map unplaced txs"
    using packInv_final[of cfg cmn txs] by simp_all
  have "concat (map transactionIds (fst (calculateMempoolBlocks cfg cmn txs)))
          = map txid (concat ?asm)"
    by (simp add: f comp_def dataToMempoolBlocks_transactionIds map_concat)
  also have "\<dots> = map (txid \<circ> unplaced) (concat ?asm)"
    by (simp add: comp_def txid_unplaced)
  also have "\<dots> = map txid (map unplaced (concat ?asm))"
    by simp
  also have "\<dots> = map txid txs"
    by (simp add: u comp_def txid_unplaced)
  finally show ?thesis .
qed

lemmas evalDefs = firstSort_def staleDemo_def freshDemo_def smallDemo_def smallConfig_def
  mempoolOf_def blankTx_def sortBy_def clearAll_def clearTx_def
  byFeePerVsize_def byEffectiveFeePerVsize_def mkTx_def resolverCalls_def resolveAll_def
  plainCommon_def resolveAlone_def finalSort_def updateMempoolBlocks_def calculateMempoolBlocks_def
  storePositions_def defaultConfig_def Let_def saveBlocks_def emptyState_def

lemma resolveAlone_frame: "resolverFrame resolveAlone"
  by (simp add: resolverFrame_def resolveAlone_def)

lemma plainCommon_frame: "resolverFrame (setRelativesAndGetCpfpInfo plainCommon)"
  by (simp add: plainCommon_def resolveAlone_frame)

text \<open>
  Claim C8. For every input mempool that is keyed by txid, and a resolver that keeps to
  its frame: in the blocks returned by \<^verbatim>\<open>updateMempoolBlocks\<close> every txid of a block's
  \<^verbatim>\<open>transactionIds\<close> is a key of the input mempool, and no txid appears more than once
  across the \<^verbatim>\<open>transactionIds\<close> of all blocks. The \<^verbatim>\<open>transactionIds\<close> of the blocks, one
  after another, are the array in its final order.
\<close>

theorem C8_transactionIds:
  assumes "keyedByTxid (keys, h)" and "resolverFrame (setRelativesAndGetCpfpInfo cmn)"
  shows "set (concat (map transactionIds (fst (updateMempoolBlocks cfg cmn st (keys, h) saveResults))))
           \<subseteq> set keys
         \<and> distinct (concat (map transactionIds
               (fst (updateMempoolBlocks cfg cmn st (keys, h) saveResults))))
         \<and> concat (map transactionIds (fst (updateMempoolBlocks cfg cmn st (keys, h) saveResults)))
             = finalSort cmn (keys, h)"
proof -
  have d: "distinct keys" and t: "\<And>k. k \<in> set keys \<Longrightarrow> txid (h k) = k"
    using assms(1) by (simp_all add: keyedByTxid_def list_all_iff)
  obtain sizes h2 calls where r: "resolveAll cmn (keys, h) = (sizes, h2, calls)"
    by (cases "resolveAll cmn (keys, h)") auto
  have "resolveInv (clearAll keys h) (firstSort (keys, h)) (sizes, h2, calls)"
    using resolveAll_inv[OF assms(2), of keys h] by (simp add: r)
  then have "\<And>k. txid (h2 k) = txid (clearAll keys h k)"
    by (simp add: resolveInv_def)
  then have h2: "\<And>k. k \<in> set keys \<Longrightarrow> txid (h2 k) = k"
    using d t by (simp add: clearAll_apply clearTx_fields)
  have "concat (map transactionIds (fst (updateMempoolBlocks cfg cmn st (keys, h) saveResults)))
          = map (\<lambda>k. txid (h2 k)) (finalSort cmn (keys, h))"
    by (simp add: updateMempoolBlocks_blocks transactionIds_concat r comp_def)
  also have "\<dots> = map (\<lambda>k. k) (finalSort cmn (keys, h))"
    by (rule map_cong) (simp_all add: finalSort_perm h2)
  finally have e: "concat (map transactionIds
                     (fst (updateMempoolBlocks cfg cmn st (keys, h) saveResults)))
                   = finalSort cmn (keys, h)"
    by simp
  show ?thesis
    unfolding e using d by (simp add: finalSort_perm)
qed

text \<open>The three transactions under the small configuration: \<open>bb\<close> fills the first block,
  \<open>aa\<close> and \<open>cc\<close> the second and last.\<close>

theorem C8_transactionIds_witness:
  "keyedByTxid smallDemo
   \<and> resolverFrame (setRelativesAndGetCpfpInfo plainCommon)
   \<and> map transactionIds (fst (updateMempoolBlocks smallConfig plainCommon emptyState smallDemo True))
       = [[''bb''], [''aa'', ''cc'']]"
  using C8_transactionIds[of "fst smallDemo" "snd smallDemo" plainCommon smallConfig emptyState True]
    plainCommon_frame
  by (simp add: evalDefs keyedByTxid_def dataToMempoolBlocks_transactionIds)

text \<open>
  Claim C1, amended. In \<^verbatim>\<open>updateMempoolBlocks\<close>, for every input mempool (its keys
  distinct, the resolver keeping to its frame): the transactions are iterated in
  feePerVsize-descending order with txid-ascending tie-break, and every transaction for
  which the running weight, its own weight included, exceeds \<open>4000000 \<times> 8\<close> (the
  constant of the source, which is \<open>BLOCK_WEIGHT_UNITS \<times> MEMPOOL_BLOCKS_AMOUNT\<close> under
  the default configuration) is not passed to the resolver; its
  \<^verbatim>\<open>effectiveFeePerVsize\<close> at the end of the call is its \<^verbatim>\<open>feePerVsize\<close> if it had no
  effective rate (absent or \<open>0\<close>) on entry, and the effective rate it had on entry
  otherwise.
\<close>

theorem C1_weight_cap:
  assumes "distinct keys" and "resolverFrame (setRelativesAndGetCpfpInfo cmn)"
    and "i < length keys"
    and "4000000 * 8 < sum_list (map (\<lambda>k. weight (h k)) (take (Suc i) (firstSort (keys, h))))"
  shows "sorted_wrt (\<lambda>a b. feePerVsize (h b) < feePerVsize (h a)
                        \<or> (feePerVsize (h a) = feePerVsize (h b) \<and> txid (h a) \<le> txid (h b)))
           (firstSort (keys, h))
         \<and> set (firstSort (keys, h)) = set keys
         \<and> distinct (firstSort (keys, h))
         \<and> firstSort (keys, h) ! i \<notin> set (resolverCalls cmn (keys, h))
         \<and> effectiveFeePerVsize
             (snd (snd (snd (updateMempoolBlocks cfg cmn st (keys, h) saveResults)))
                (firstSort (keys, h) ! i))
           = (if effectiveFeePerVsize (h (firstSort (keys, h) ! i)) = None
                 \<or> effectiveFeePerVsize (h (firstSort (keys, h) ! i)) = Some 0
              then Some (feePerVsize (h (firstSort (keys, h) ! i)))
              else effectiveFeePerVsize (h (firstSort (keys, h) ! i)))"
proof -
  let ?arr = "firstSort (keys, h)"
  let ?h1 = "clearAll keys h"
  let ?w = "\<lambda>k. weight (?h1 k)"
  obtain sizes h2 calls where r: "resolveAll cmn (keys, h) = (sizes, h2, calls)"
    by (cases "resolveAll cmn (keys, h)") auto
  have inv: "resolveInv ?h1 ?arr (sizes, h2, calls)"
    using resolveAll_inv[OF assms(2), of keys h] by (simp add: r)
  have calls: "calls = map (\<lambda>j. ?arr ! j) (filter (underCap ?w ?arr) [0..<length ?arr])"
    and eff: "\<And>k. k \<notin> set calls \<Longrightarrow> effectiveFeePerVsize (h2 k) = effectiveFeePerVsize (?h1 k)"
    using inv by (simp_all add: resolveInv_def)
  have w: "?w = (\<lambda>k. weight (h k))"
    by (rule ext) (simp add: clearAll_apply[OF assms(1)] clearTx_fields)
  have i: "i < length ?arr" using assms(3) by (simp add: firstSort_perm)
  have da: "distinct ?arr" using assms(1) by (simp add: firstSort_perm)
  have over: "\<not> underCap ?w ?arr i"
    using assms(4) by (simp add: underCap_def w)
  have notin: "?arr ! i \<notin> set calls"
  proof
    assume "?arr ! i \<in> set calls"
    then obtain j where j: "j < length ?arr" "underCap ?w ?arr j" "?arr ! j = ?arr ! i"
      unfolding calls by auto
    then have "j = i" using da i by (simp add: nth_eq_iff_index_eq)
    then show False using j(2) over by simp
  qed
  have mem: "?arr ! i \<in> set keys"
    using i firstSort_perm(1)[of keys h] nth_mem by blast
  have "effectiveFeePerVsize
             (snd (snd (snd (updateMempoolBlocks cfg cmn st (keys, h) saveResults))) (?arr ! i))
          = effectiveFeePerVsize (h2 (?arr ! i))"
    by (simp add: updateMempoolBlocks_heap storePositions_fields r)
  also have "\<dots> = effectiveFeePerVsize (?h1 (?arr ! i))"
    using eff[OF notin] .
  also have "\<dots> = (if effectiveFeePerVsize (h (?arr ! i)) = None
                 \<or> effectiveFeePerVsize (h (?arr ! i)) = Some 0
              then Some (feePerVsize (h (?arr ! i)))
              else effectiveFeePerVsize (h (?arr ! i)))"
    using mem by (simp add: clearAll_apply[OF assms(1)] clearTx_fields)
  finally have e: "effectiveFeePerVsize
             (snd (snd (snd (updateMempoolBlocks cfg cmn st (keys, h) saveResults))) (?arr ! i))
           = (if effectiveFeePerVsize (h (?arr ! i)) = None
                 \<or> effectiveFeePerVsize (h (?arr ! i)) = Some 0
              then Some (feePerVsize (h (?arr ! i)))
              else effectiveFeePerVsize (h (?arr ! i)))" .
  have c: "resolverCalls cmn (keys, h) = calls"
    by (simp add: resolverCalls_def r)
  show ?thesis
    using firstSort_sorted[OF assms(1), of h] da notin e
    by (simp only: c firstSort_perm(1) simp_thms)
qed

text \<open>The mempool whose \<open>bb\<close> has no effective rate on entry: \<open>bb\<close> is second in the
  array, beyond the cap, is not resolved, and ends with its own fee rate 1.\<close>

theorem C1_weight_cap_witness:
  "distinct (fst freshDemo)
   \<and> resolverFrame (setRelativesAndGetCpfpInfo plainCommon)
   \<and> firstSort freshDemo = [''aa'', ''bb'']
   \<and> 4000000 * 8 < sum_list (map (\<lambda>k. weight (snd freshDemo k)) (take 2 (firstSort freshDemo)))
   \<and> resolverCalls plainCommon freshDemo = [''aa'']
   \<and> effectiveFeePerVsize
        (snd (snd (snd (updateMempoolBlocks defaultConfig plainCommon emptyState freshDemo True)))
           ''bb'') = Some 1"
  using C1_weight_cap[of "fst freshDemo" plainCommon 1 "snd freshDemo" defaultConfig emptyState True]
    plainCommon_frame
  by (simp add: evalDefs)

text \<open>Claim C1 as it is written fails twice. Under the default configuration \<open>bb\<close> lies
  beyond the cap, and ends the call with the effective rate 9 it had on entry while
  its \<^verbatim>\<open>feePerVsize\<close> is 1. Under the small configuration the running weight exceeds
  \<open>BLOCK_WEIGHT_UNITS \<times> MEMPOOL_BLOCKS_AMOUNT = 2000\<close> at \<open>cc\<close>, and \<open>cc\<close> is passed to
  the resolver all the same.\<close>

theorem C1_counterexample:
  "firstSort staleDemo = [''aa'', ''bb'']
   \<and> BLOCK_WEIGHT_UNITS defaultConfig * nat (MEMPOOL_BLOCKS_AMOUNT defaultConfig)
       < sum_list (map (\<lambda>k. weight (snd staleDemo k)) (take 2 (firstSort staleDemo)))
   \<and> feePerVsize
        (snd (snd (snd (updateMempoolBlocks defaultConfig plainCommon emptyState staleDemo True)))
           ''bb'') = 1
   \<and> effectiveFeePerVsize
        (snd (snd (snd (updateMempoolBlocks defaultConfig plainCommon emptyState staleDemo True)))
           ''bb'') = Some 9
   \<and> firstSort smallDemo = [''bb'', ''aa'', ''cc'']
   \<and> BLOCK_WEIGHT_UNITS smallConfig * nat (MEMPOOL_BLOCKS_AMOUNT smallConfig)
       < sum_list (map (\<lambda>k. weight (snd smallDemo k)) (take 3 (firstSort smallDemo)))
   \<and> resolverCalls plainCommon smallDemo = [''bb'', ''aa'', ''cc'']"
  by (simp add: evalDefs)

lemma processBlockTemplates_state:
  "fst (snd (processBlockTemplates cfg cmn st memPool blocks clusters saveResults))
     = saveBlocks saveResults
         (fst (processBlockTemplates cfg cmn st memPool blocks clusters saveResults)) st"
  by (simp add: processBlockTemplates_def Let_def split: prod.splits)

lemma processBlockTemplates_blocks:
  "fst (processBlockTemplates cfg cmn st memPool blocks clusters True)
     = fst (processBlockTemplates cfg cmn st memPool blocks clusters False)"
  by (simp add: processBlockTemplates_def Let_def split: prod.splits)

lemma saveBlocks_True:
  "saveBlocks True blocks st
     = \<lparr>mempoolBlocks = blocks,
        mempoolBlockDeltas = calculateMempoolDeltas (mempoolBlocks st) blocks\<rparr>"
  by (simp add: saveBlocks_def Let_def)

lemma saveBlocks_False: "saveBlocks False blocks st = st"
  by (simp add: saveBlocks_def)

text \<open>
  Claim C9. For every call of \<^verbatim>\<open>updateMempoolBlocks\<close> and of \<^verbatim>\<open>processBlockTemplates\<close>:
  with \<^verbatim>\<open>saveResults\<close> true the snapshot the call leaves holds the blocks it returns and
  the deltas of the previously stored blocks against them, and the accessors return
  these; with \<^verbatim>\<open>saveResults\<close> false the snapshot is the one the call found. The blocks
  returned are the same either way.
\<close>

theorem C9_snapshot:
  "fst (snd (updateMempoolBlocks cfg cmn st memPool True))
     = \<lparr>mempoolBlocks = fst (updateMempoolBlocks cfg cmn st memPool True),
        mempoolBlockDeltas =
          calculateMempoolDeltas (mempoolBlocks st)
            (fst (updateMempoolBlocks cfg cmn st memPool True))\<rparr>
   \<and> fst (snd (updateMempoolBlocks cfg cmn st memPool False)) = st
   \<and> fst (updateMempoolBlocks cfg cmn st memPool True)
       = fst (updateMempoolBlocks cfg cmn st memPool False)
   \<and> fst (snd (processBlockTemplates cfg cmn st memPool blocks clusters True))
     = \<lparr>mempoolBlocks = fst (processBlockTemplates cfg cmn st memPool blocks clusters True),
        mempoolBlockDeltas =
          calculateMempoolDeltas (mempoolBlocks st)
            (fst (processBlockTemplates cfg cmn st memPool blocks clusters True))\<rparr>
   \<and> fst (snd (processBlockTemplates cfg cmn st memPool blocks clusters False)) = st
   \<and> fst (processBlockTemplates cfg cmn st memPool blocks clusters True)
       = fst (processBlockTemplates cfg cmn st memPool blocks clusters False)
   \<and> getMempoolBlocksWithTransactions (fst (snd (updateMempoolBlocks cfg cmn st memPool True)))
       = fst (updateMempoolBlocks cfg cmn st memPool True)
   \<and> getMempoolBlockDeltas (fst (snd (updateMempoolBlocks cfg cmn st memPool True)))
       = calculateMempoolDeltas (getMempoolBlocksWithTransactions st)
           (fst (updateMempoolBlocks cfg cmn st memPool True))
   \<and> getMempoolBlocksWithTransactions
         (fst (snd (processBlockTemplates cfg cmn st memPool blocks clusters True)))
       = fst (processBlockTemplates cfg cmn st memPool blocks clusters True)
   \<and> getMempoolBlockDeltas
         (fst (snd (processBlockTemplates cfg cmn st memPool blocks clusters True)))
       = calculateMempoolDeltas (getMempoolBlocksWithTransactions st)
           (fst (processBlockTemplates cfg cmn st memPool blocks clusters True))
   \<and> getMempoolBlocks (fst (snd (updateMempoolBlocks cfg cmn st memPool False)))
       = getMempoolBlocks st
   \<and> getMempoolBlocksWithTransactions (fst (snd (updateMempoolBlocks cfg cmn st memPool False)))
       = getMempoolBlocksWithTransactions st
   \<and> getMempoolBlockDeltas (fst (snd (updateMempoolBlocks cfg cmn st memPool False)))
       = getMempoolBlockDeltas st
   \<and> getMempoolBlocks
         (fst (snd (processBlockTemplates cfg cmn st memPool blocks clusters False)))
       = getMempoolBlocks st
   \<and> getMempoolBlocksWithTransactions
         (fst (snd (processBlockTemplates cfg cmn st memPool blocks clusters False)))
       = getMempoolBlocksWithTransactions st
   \<and> getMempoolBlockDeltas
         (fst (snd (processBlockTemplates cfg cmn st memPool blocks clusters False)))
       = getMempoolBlockDeltas st"
  by (simp add: updateMempoolBlocks_state processBlockTemplates_state saveBlocks_True
      saveBlocks_False updateMempoolBlocks_blocks processBlockTemplates_blocks
      getMempoolBlocksWithTransactions_def getMempoolBlockDeltas_def)

end
